theory Spec2Isabelle
  imports Main "HOL-Library.Word" "HOL-Library.Sublist"
begin

section \<open>Strings\<close>

text \<open>
  A JavaScript string is a sequence of 16-bit code units, and \<open>length\<close>, \<open>trim\<close> and
  the regular expressions of the source all work on code units. \<open>str\<close> turns a literal
  of the source (ASCII in every case) into such a sequence.
\<close>

type_synonym jschar = "16 word"
type_synonym jstring = "jschar list"

definition ch :: "char \<Rightarrow> jschar" where
  "ch c = of_char c"

definition str :: "string \<Rightarrow> jstring" where
  "str s = map ch s"

text \<open>
  White space as \<open>String.prototype.trim\<close> and the class \<open>\s\<close> take it: the
  ECMAScript WhiteSpace code points (TAB, VT, FF, SP, NBSP, ZWNBSP and the category Zs)
  and the line terminators LF, CR, LS, PS.
\<close>

definition is_line_terminator :: "jschar \<Rightarrow> bool" where
  "is_line_terminator c = (c = 0x0A \<or> c = 0x0D \<or> c = 0x2028 \<or> c = 0x2029)"

definition is_space :: "jschar \<Rightarrow> bool" where
  "is_space c =
     (c = 0x09 \<or> c = 0x0B \<or> c = 0x0C \<or> c = 0x20 \<or> c = 0xA0 \<or> c = 0x1680 \<or>
      (0x2000 \<le> c \<and> c \<le> 0x200A) \<or> c = 0x202F \<or> c = 0x205F \<or> c = 0x3000 \<or>
      c = 0xFEFF \<or> is_line_terminator c)"

definition trim :: "jstring \<Rightarrow> jstring" where
  "trim s = rev (dropWhile is_space (rev (dropWhile is_space s)))"

text \<open>The class \<open>\w\<close> (without the \<open>u\<close> flag): ASCII letters, digits and the underscore.\<close>

definition is_word :: "jschar \<Rightarrow> bool" where
  "is_word c =
     ((0x61 \<le> c \<and> c \<le> 0x7A) \<or> (0x41 \<le> c \<and> c \<le> 0x5A) \<or>
      (0x30 \<le> c \<and> c \<le> 0x39) \<or> c = 0x5F)"

text \<open>
  Matching under the \<open>i\<close> flag (without \<open>u\<close>): two code units match when their
  canonical forms agree, and a code unit outside ASCII never canonicalises to an ASCII
  one. Against the ASCII characters of the source's patterns that is equality up to the
  case of the ASCII letters.
\<close>

definition ascii_lower :: "jschar \<Rightarrow> jschar" where
  "ascii_lower c = (if 0x41 \<le> c \<and> c \<le> 0x5A then c + 0x20 else c)"

definition ci_eq :: "jschar \<Rightarrow> jschar \<Rightarrow> bool" where
  "ci_eq p c = (ascii_lower c = ascii_lower p)"

text \<open>
  The decimal digits of a non-negative integer. This is \<open>${n}\<close> in a template literal
  for an array index plus one, and for any other integer below \<open>2 ^ 53\<close>.
\<close>

definition digit_char :: "nat \<Rightarrow> jschar" where
  "digit_char d = of_nat (48 + d)"

fun show_nat :: "nat \<Rightarrow> jstring" where
  "show_nat n = (if n < 10 then [digit_char n] else show_nat (n div 10) @ [digit_char (n mod 10)])"

declare show_nat.simps [simp del]

definition show_int :: "int \<Rightarrow> jstring" where
  "show_int i = (if i < 0 then ch CHR ''-'' # show_nat (nat (- i)) else show_nat (nat i))"

text \<open>\<open>Array.prototype.join\<close> on strings.\<close>

fun join :: "jstring \<Rightarrow> jstring list \<Rightarrow> jstring" where
  "join sep [] = []"
| "join sep [x] = x"
| "join sep (x # y # ys) = x @ sep @ join sep (y # ys)"

text \<open>\<open>String.prototype.startsWith\<close>.\<close>

definition startsWith :: "jstring \<Rightarrow> jstring \<Rightarrow> bool" where
  "startsWith s p = (take (length p) s = p)"

section \<open>Regular expressions\<close>

text \<open>
  A pattern is modelled by the function that matches it at the start of a text and
  returns what follows the match. The patterns of the source repeat only single
  character classes, and where they do, what follows the repetition begins with a
  character outside the class (or the pattern ends): the greedy choice is then the only
  one that can succeed, so the backtracking matcher of the language and this one agree
  on whether there is a match. \<open>regex_test\<close> is \<open>RegExp.prototype.test\<close> for a
  pattern without the \<open>g\<close> flag: a match at some position.
\<close>

type_synonym pattern = "jstring \<Rightarrow> jstring option"

fun lit_ci :: "jstring \<Rightarrow> pattern" where
  "lit_ci [] s = Some s"
| "lit_ci (p # ps) [] = None"
| "lit_ci (p # ps) (c # cs) = (if ci_eq p c then lit_ci ps cs else None)"

definition star :: "(jschar \<Rightarrow> bool) \<Rightarrow> pattern" where
  "star cls s = Some (dropWhile cls s)"

definition plus :: "(jschar \<Rightarrow> bool) \<Rightarrow> pattern" where
  "plus cls s = (case s of [] \<Rightarrow> None | c # cs \<Rightarrow> if cls c then Some (dropWhile cls cs) else None)"

definition seq :: "pattern \<Rightarrow> pattern \<Rightarrow> pattern" where
  "seq p q s = (case p s of None \<Rightarrow> None | Some r \<Rightarrow> q r)"

fun regex_test :: "pattern \<Rightarrow> jstring \<Rightarrow> bool" where
  "regex_test p [] = (p [] \<noteq> None)"
| "regex_test p (c # cs) = (p (c # cs) \<noteq> None \<or> regex_test p cs)"

text \<open>\<^verbatim>\<open>/<script/i\<close>\<close>
definition rx_script :: pattern where
  "rx_script = lit_ci (str ''<script'')"

text \<open>\<^verbatim>\<open>/javascript:/i\<close>\<close>
definition rx_javascript :: pattern where
  "rx_javascript = lit_ci (str ''javascript:'')"

text \<open>\<^verbatim>\<open>/on\w+\s*=/i\<close>\<close>
definition rx_handler :: pattern where
  "rx_handler = seq (lit_ci (str ''on'')) (seq (plus is_word) (seq (star is_space) (lit_ci (str ''=''))))"

text \<open>\<^verbatim>\<open>/eval\s*\(/i\<close>\<close>
definition rx_eval :: pattern where
  "rx_eval = seq (lit_ci (str ''eval'')) (seq (star is_space) (lit_ci (str ''('')))"

text \<open>\<^verbatim>\<open>/function\s*\(/i\<close>\<close>
definition rx_function :: pattern where
  "rx_function = seq (lit_ci (str ''function'')) (seq (star is_space) (lit_ci (str ''('')))"

text \<open>\<^verbatim>\<open>/import\s+/i\<close>\<close>
definition rx_import :: pattern where
  "rx_import = seq (lit_ci (str ''import'')) (plus is_space)"

text \<open>\<^verbatim>\<open>/require\s*\(/i\<close>\<close>
definition rx_require :: pattern where
  "rx_require = seq (lit_ci (str ''require'')) (seq (star is_space) (lit_ci (str ''('')))"

text \<open>
  \<^verbatim>\<open>/(.)\1{10,}/\<close>: a character other than a line terminator, followed by at least
  ten more of the same.
\<close>
definition rx_repeated :: pattern where
  "rx_repeated s =
     (case s of
        [] \<Rightarrow> None
      | c # cs \<Rightarrow>
          if \<not> is_line_terminator c \<and> 10 \<le> length (takeWhile (\<lambda>d. d = c) cs)
          then Some (dropWhile (\<lambda>d. d = c) cs) else None)"

text \<open>
  \<^verbatim>\<open>/\b(viagra|casino|poker|lottery)\b/i\<close>. The first \<open>\b\<close> looks at the character
  before the match, so the search carries whether that character is a word character;
  the second \<open>\b\<close> holds when no word character follows the keyword.
\<close>
definition spam_words :: "jstring list" where
  "spam_words = [str ''viagra'', str ''casino'', str ''poker'', str ''lottery'']"

definition keyword_here :: "jstring \<Rightarrow> bool" where
  "keyword_here s =
     list_ex (\<lambda>w. case lit_ci w s of
                     None \<Rightarrow> False
                   | Some r \<Rightarrow> (case r of [] \<Rightarrow> True | c # _ \<Rightarrow> \<not> is_word c))
       spam_words"

fun spam_search :: "bool \<Rightarrow> jstring \<Rightarrow> bool" where
  "spam_search prev_word [] = False"
| "spam_search prev_word (c # cs) =
     ((\<not> prev_word \<and> keyword_here (c # cs)) \<or> spam_search (is_word c) cs)"

definition test_spam_words :: "jstring \<Rightarrow> bool" where
  "test_spam_words s = spam_search False s"

section \<open>The rate limiter of the generation endpoint (app/api/generate/route.ts)\<close>

text \<open>
  \<^verbatim>\<open>const rateLimitMap = new Map<string, { count: number; resetTime: number }>()\<close> is
  module state; the model passes it in and returns it updated. \<open>Date.now()\<close> is the
  argument \<open>now\<close> (milliseconds, an integer).
\<close>

record limit_entry =
  count :: nat
  resetTime :: int

type_synonym rate_map = "jstring \<rightharpoonup> limit_entry"

record rate_check =
  allowed :: bool
  error :: "jstring option"

definition RATE_LIMIT_WINDOW :: int where
  "RATE_LIMIT_WINDOW = 60 * 1000"

definition RATE_LIMIT_MAX_REQUESTS :: nat where
  "RATE_LIMIT_MAX_REQUESTS = 10"

definition checkRateLimit :: "jstring \<Rightarrow> int \<Rightarrow> rate_map \<Rightarrow> rate_check \<times> rate_map" where
  "checkRateLimit ip now rateLimitMap =
     (case rateLimitMap ip of
        None \<Rightarrow>
          (\<lparr>allowed = True, error = None\<rparr>,
           rateLimitMap(ip \<mapsto> \<lparr>count = 1, resetTime = now + RATE_LIMIT_WINDOW\<rparr>))
      | Some userLimit \<Rightarrow>
          if now > resetTime userLimit then
            (\<lparr>allowed = True, error = None\<rparr>,
             rateLimitMap(ip \<mapsto> \<lparr>count = 1, resetTime = now + RATE_LIMIT_WINDOW\<rparr>))
          else if count userLimit \<ge> RATE_LIMIT_MAX_REQUESTS then
            (\<lparr>allowed = False,
              error = Some (str ''Rate limit exceeded. Please try again later.'')\<rparr>,
             rateLimitMap)
          else
            (\<lparr>allowed = True, error = None\<rparr>,
             rateLimitMap(ip \<mapsto> userLimit\<lparr>count := count userLimit + 1\<rparr>)))"

text \<open>
  Successive requests, each with its client address and the time it is served at: the
  map left by one call is the map the next call sees.
\<close>

fun checkRateLimit_calls :: "(jstring \<times> int) list \<Rightarrow> rate_map \<Rightarrow> rate_check list \<times> rate_map" where
  "checkRateLimit_calls [] m = ([], m)"
| "checkRateLimit_calls ((ip, now) # reqs) m =
     (let (r, m') = checkRateLimit ip now m;
          (rs, m'') = checkRateLimit_calls reqs m'
      in (r # rs, m''))"

text \<open>The answers given to one client, in order, among those of a run of requests.\<close>

definition answers_for :: "jstring \<Rightarrow> (jstring \<times> int) list \<Rightarrow> rate_check list \<Rightarrow> rate_check list" where
  "answers_for ip reqs rs = map snd (filter (\<lambda>(q, r). fst q = ip) (zip reqs rs))"

definition times_of :: "jstring \<Rightarrow> (jstring \<times> int) list \<Rightarrow> int list" where
  "times_of ip reqs = map snd (filter (\<lambda>q. fst q = ip) reqs)"

definition rate_allow :: rate_check where
  "rate_allow = \<lparr>allowed = True, error = None\<rparr>"

definition rate_deny :: rate_check where
  "rate_deny = \<lparr>allowed = False,
     error = Some (str ''Rate limit exceeded. Please try again later.'')\<rparr>"

section \<open>The rate limiter of the save endpoint (app/api/save/route.ts)\<close>

definition SAVE_RATE_LIMIT_WINDOW :: int where
  "SAVE_RATE_LIMIT_WINDOW = 60 * 1000"

definition SAVE_RATE_LIMIT_MAX_REQUESTS :: nat where
  "SAVE_RATE_LIMIT_MAX_REQUESTS = 5"

definition checkSaveRateLimit :: "jstring \<Rightarrow> int \<Rightarrow> rate_map \<Rightarrow> rate_check \<times> rate_map" where
  "checkSaveRateLimit ip now saveRateLimitMap =
     (case saveRateLimitMap ip of
        None \<Rightarrow>
          (\<lparr>allowed = True, error = None\<rparr>,
           saveRateLimitMap(ip \<mapsto> \<lparr>count = 1, resetTime = now + SAVE_RATE_LIMIT_WINDOW\<rparr>))
      | Some userLimit \<Rightarrow>
          if now > resetTime userLimit then
            (\<lparr>allowed = True, error = None\<rparr>,
             saveRateLimitMap(ip \<mapsto> \<lparr>count = 1, resetTime = now + SAVE_RATE_LIMIT_WINDOW\<rparr>))
          else if count userLimit \<ge> SAVE_RATE_LIMIT_MAX_REQUESTS then
            (\<lparr>allowed = False,
              error = Some (str ''Save rate limit exceeded. Please try again later.'')\<rparr>,
             saveRateLimitMap)
          else
            (\<lparr>allowed = True, error = None\<rparr>,
             saveRateLimitMap(ip \<mapsto> userLimit\<lparr>count := count userLimit + 1\<rparr>)))"

section \<open>JSON values\<close>

text \<open>
  What \<open>JSON.parse\<close> can return, and so every template the endpoint handles: null,
  booleans, numbers, strings, arrays and plain objects. An object is the list of its own
  properties, each key once, in the order \<open>JSON.parse\<close> created them (an engine lists
  integer-like keys first; the source never looks at the order of keys). A number is
  kept as the decimal it was written as, \<open>JNum m e\<close> for \<open>m \<times> 10\<^sup>e\<close>: the source
  never computes with the numbers of a template, it only asks for their type and
  whether they are zero.
\<close>

datatype json =
    JNull
  | JBool bool
  | JNum int int
  | JStr jstring
  | JArr "json list"
  | JObj "(jstring \<times> json) list"

text \<open>
  \<open>CreateDataProperty\<close>, as \<open>JSON.parse\<close> uses it for each member it reads: a key seen
  before keeps its place and takes the new value, a new key goes to the end.
\<close>

fun put_prop :: "jstring \<Rightarrow> json \<Rightarrow> (jstring \<times> json) list \<Rightarrow> (jstring \<times> json) list" where
  "put_prop k v [] = [(k, v)]"
| "put_prop k v (p # ps) = (if fst p = k then (k, v) # ps else p # put_prop k v ps)"

text \<open>
  Reading a property, \<open>x.name\<close>; \<open>None\<close> is \<open>undefined\<close>. The source reads the names
  title, sections, properties, notes, name, type and description only, and only of
  values it has found to be non-null objects: no array and no prototype has a property
  of one of these names, so an array answers \<open>undefined\<close>.
\<close>

fun get_prop :: "json \<Rightarrow> string \<Rightarrow> json option" where
  "get_prop (JObj kvs) name = map_of kvs (str name)"
| "get_prop _ name = None"

text \<open>
  Truthiness (\<open>ToBoolean\<close>). A number is falsy when it is zero; a decimal so small that
  it rounds to the double 0 (at most \<open>2\<^sup>-\<^sup>1\<^sup>0\<^sup>7\<^sup>5\<close> in magnitude) is zero.
\<close>

definition number_is_zero :: "int \<Rightarrow> int \<Rightarrow> bool" where
  "number_is_zero m e =
     (if 0 \<le> e then m = 0 else \<bar>m\<bar> * 2 ^ 1075 \<le> 10 ^ nat (- e))"

fun truthy :: "json option \<Rightarrow> bool" where
  "truthy None = False"
| "truthy (Some JNull) = False"
| "truthy (Some (JBool b)) = b"
| "truthy (Some (JNum m e)) = (\<not> number_is_zero m e)"
| "truthy (Some (JStr s)) = (s \<noteq> [])"
| "truthy (Some (JArr xs)) = True"
| "truthy (Some (JObj kvs)) = True"

fun typeof :: "json option \<Rightarrow> string" where
  "typeof None = ''undefined''"
| "typeof (Some JNull) = ''object''"
| "typeof (Some (JBool b)) = ''boolean''"
| "typeof (Some (JNum m e)) = ''number''"
| "typeof (Some (JStr s)) = ''string''"
| "typeof (Some (JArr xs)) = ''object''"
| "typeof (Some (JObj kvs)) = ''object''"

fun isArray :: "json option \<Rightarrow> bool" where
  "isArray (Some (JArr xs)) = True"
| "isArray _ = False"

section \<open>JSON.parse\<close>

text \<open>
  The JSON grammar of ECMAScript, read by recursive descent. The recursion into nested
  values is counted by a fuel argument; \<open>JSON_parse\<close> gives more fuel than any text of
  its length can use, and \<open>OutOfFuel\<close> is kept apart from \<open>SyntaxError\<close> so that this
  can be stated and proved.
\<close>

datatype 'a parse_result = OutOfFuel | SyntaxError | Parsed 'a

definition is_json_ws :: "jschar \<Rightarrow> bool" where
  "is_json_ws c = (c = 0x20 \<or> c = 0x09 \<or> c = 0x0A \<or> c = 0x0D)"

definition skip_ws :: "jstring \<Rightarrow> jstring" where
  "skip_ws s = dropWhile is_json_ws s"

definition is_digit :: "jschar \<Rightarrow> bool" where
  "is_digit c = (0x30 \<le> c \<and> c \<le> 0x39)"

definition digit_val :: "jschar \<Rightarrow> nat" where
  "digit_val c = unat c - 48"

definition digits_val :: "jstring \<Rightarrow> nat" where
  "digits_val ds = foldl (\<lambda>a d. 10 * a + digit_val d) 0 ds"

definition hex_val :: "jschar \<Rightarrow> nat option" where
  "hex_val c =
     (if 0x30 \<le> c \<and> c \<le> 0x39 then Some (unat c - 48)
      else if 0x61 \<le> c \<and> c \<le> 0x66 then Some (unat c - 87)
      else if 0x41 \<le> c \<and> c \<le> 0x46 then Some (unat c - 55)
      else None)"

definition hex4 :: "jschar \<Rightarrow> jschar \<Rightarrow> jschar \<Rightarrow> jschar \<Rightarrow> jschar option" where
  "hex4 a b c d =
     (case (hex_val a, hex_val b, hex_val c, hex_val d) of
        (Some x, Some y, Some z, Some w) \<Rightarrow> Some (of_nat (4096 * x + 256 * y + 16 * z + w))
      | _ \<Rightarrow> None)"

text \<open>The character a two-character escape stands for.\<close>

definition simple_escape :: "jschar \<Rightarrow> jschar option" where
  "simple_escape e =
     (if e = 0x22 then Some 0x22
      else if e = 0x5C then Some 0x5C
      else if e = 0x2F then Some 0x2F
      else if e = 0x62 then Some 0x08
      else if e = 0x66 then Some 0x0C
      else if e = 0x6E then Some 0x0A
      else if e = 0x72 then Some 0x0D
      else if e = 0x74 then Some 0x09
      else None)"

text \<open>The characters of a string after its opening quote, up to the closing one.\<close>

fun parse_chars :: "jstring \<Rightarrow> (jstring \<times> jstring) option" where
  "parse_chars [] = None"
| "parse_chars (c # cs) =
     (if c = 0x22 then Some ([], cs)
      else if c = 0x5C then
        (case cs of
           [] \<Rightarrow> None
         | e # r \<Rightarrow>
             if e = 0x75 then
               (case r of
                  h1 # h2 # h3 # h4 # r' \<Rightarrow>
                    (case hex4 h1 h2 h3 h4 of
                       None \<Rightarrow> None
                     | Some u \<Rightarrow>
                         (case parse_chars r' of
                            None \<Rightarrow> None
                          | Some (s, rest) \<Rightarrow> Some (u # s, rest)))
                | _ \<Rightarrow> None)
             else
               (case simple_escape e of
                  None \<Rightarrow> None
                | Some d \<Rightarrow>
                    (case parse_chars r of
                       None \<Rightarrow> None
                     | Some (s, rest) \<Rightarrow> Some (d # s, rest))))
      else if c < 0x20 then None
      else
        (case parse_chars cs of
           None \<Rightarrow> None
         | Some (s, rest) \<Rightarrow> Some (c # s, rest)))"

text \<open>
  A number: \<open>-? (0 | [1-9][0-9]*) (. [0-9]+)? ([eE] [+-]? [0-9]+)?\<close>, as mantissa
  and decimal exponent.
\<close>

definition parse_int_part :: "jstring \<Rightarrow> (jstring \<times> jstring) option" where
  "parse_int_part s =
     (case s of
        [] \<Rightarrow> None
      | c # cs \<Rightarrow>
          if c = 0x30 then Some ([c], cs)
          else if is_digit c then Some (takeWhile is_digit s, dropWhile is_digit s)
          else None)"

definition parse_frac_part :: "jstring \<Rightarrow> (jstring \<times> jstring) option" where
  "parse_frac_part s =
     (case s of
        c # cs \<Rightarrow>
          if c = 0x2E then
            (if takeWhile is_digit cs = [] then None
             else Some (takeWhile is_digit cs, dropWhile is_digit cs))
          else Some ([], s)
      | [] \<Rightarrow> Some ([], s))"

definition parse_exp_digits :: "bool \<Rightarrow> jstring \<Rightarrow> (int \<times> jstring) option" where
  "parse_exp_digits neg s =
     (if takeWhile is_digit s = [] then None
      else Some ((if neg then - int (digits_val (takeWhile is_digit s))
                  else int (digits_val (takeWhile is_digit s))),
                 dropWhile is_digit s))"

definition parse_exp_part :: "jstring \<Rightarrow> (int \<times> jstring) option" where
  "parse_exp_part s =
     (case s of
        c # cs \<Rightarrow>
          if c = 0x65 \<or> c = 0x45 then
            (case cs of
               d # ds \<Rightarrow>
                 if d = 0x2D then parse_exp_digits True ds
                 else if d = 0x2B then parse_exp_digits False ds
                 else parse_exp_digits False cs
             | [] \<Rightarrow> None)
          else Some (0, s)
      | [] \<Rightarrow> Some (0, s))"

definition parse_unsigned :: "bool \<Rightarrow> jstring \<Rightarrow> (json \<times> jstring) option" where
  "parse_unsigned neg s =
     (case parse_int_part s of
        None \<Rightarrow> None
      | Some (ip, r1) \<Rightarrow>
          (case parse_frac_part r1 of
             None \<Rightarrow> None
           | Some (fp, r2) \<Rightarrow>
               (case parse_exp_part r2 of
                  None \<Rightarrow> None
                | Some (ex, r3) \<Rightarrow>
                    Some (JNum (if neg then - int (digits_val (ip @ fp)) else int (digits_val (ip @ fp)))
                               (ex - int (length fp)),
                          r3))))"

definition parse_number :: "jstring \<Rightarrow> (json \<times> jstring) option" where
  "parse_number s =
     (case s of
        c # cs \<Rightarrow> if c = 0x2D then parse_unsigned True cs else parse_unsigned False s
      | [] \<Rightarrow> None)"

definition parse_literal :: "jstring \<Rightarrow> (json \<times> jstring) option" where
  "parse_literal s =
     (if startsWith s (str ''true'') then Some (JBool True, drop 4 s)
      else if startsWith s (str ''false'') then Some (JBool False, drop 5 s)
      else if startsWith s (str ''null'') then Some (JNull, drop 4 s)
      else None)"

definition of_option :: "'a option \<Rightarrow> 'a parse_result" where
  "of_option x = (case x of None \<Rightarrow> SyntaxError | Some y \<Rightarrow> Parsed y)"

text \<open>
  \<open>parse_value\<close> reads one value at the start of the text (white space already
  skipped); \<open>parse_elems\<close> the elements of an array after its bracket, up to the
  closing one; \<open>parse_members\<close> the members of an object.
\<close>

fun parse_value :: "nat \<Rightarrow> jstring \<Rightarrow> (json \<times> jstring) parse_result"
  and parse_elems :: "nat \<Rightarrow> jstring \<Rightarrow> json list \<Rightarrow> (json \<times> jstring) parse_result"
  and parse_members :: "nat \<Rightarrow> jstring \<Rightarrow> (jstring \<times> json) list \<Rightarrow> (json \<times> jstring) parse_result"
where
  "parse_value 0 s = OutOfFuel"
| "parse_value (Suc n) [] = SyntaxError"
| "parse_value (Suc n) (c # cs) =
     (if c = 0x5B then
        (case skip_ws cs of
           [] \<Rightarrow> SyntaxError
         | d # ds \<Rightarrow> if d = 0x5D then Parsed (JArr [], ds) else parse_elems n (d # ds) [])
      else if c = 0x7B then
        (case skip_ws cs of
           [] \<Rightarrow> SyntaxError
         | d # ds \<Rightarrow> if d = 0x7D then Parsed (JObj [], ds) else parse_members n (d # ds) [])
      else if c = 0x22 then
        (case parse_chars cs of
           None \<Rightarrow> SyntaxError
         | Some (s, rest) \<Rightarrow> Parsed (JStr s, rest))
      else if c = 0x2D \<or> is_digit c then of_option (parse_number (c # cs))
      else of_option (parse_literal (c # cs)))"
| "parse_elems 0 s acc = OutOfFuel"
| "parse_elems (Suc n) s acc =
     (case parse_value n s of
        OutOfFuel \<Rightarrow> OutOfFuel
      | SyntaxError \<Rightarrow> SyntaxError
      | Parsed (v, r) \<Rightarrow>
          (case skip_ws r of
             [] \<Rightarrow> SyntaxError
           | d # ds \<Rightarrow>
               if d = 0x2C then parse_elems n (skip_ws ds) (acc @ [v])
               else if d = 0x5D then Parsed (JArr (acc @ [v]), ds)
               else SyntaxError))"
| "parse_members 0 s acc = OutOfFuel"
| "parse_members (Suc n) [] acc = SyntaxError"
| "parse_members (Suc n) (c # cs) acc =
     (if c = 0x22 then
        (case parse_chars cs of
           None \<Rightarrow> SyntaxError
         | Some (k, r) \<Rightarrow>
             (case skip_ws r of
                [] \<Rightarrow> SyntaxError
              | d # ds \<Rightarrow>
                  if d = 0x3A then
                    (case parse_value n (skip_ws ds) of
                       OutOfFuel \<Rightarrow> OutOfFuel
                     | SyntaxError \<Rightarrow> SyntaxError
                     | Parsed (v, r') \<Rightarrow>
                         (case skip_ws r' of
                            [] \<Rightarrow> SyntaxError
                          | d' # ds' \<Rightarrow>
                              if d' = 0x2C then parse_members n (skip_ws ds') (put_prop k v acc)
                              else if d' = 0x7D then Parsed (JObj (put_prop k v acc), ds')
                              else SyntaxError))
                  else SyntaxError))
      else SyntaxError)"

text \<open>\<open>JSON.parse(text)\<close>; \<open>None\<close> is the SyntaxError it throws.\<close>

definition JSON_parse :: "jstring \<Rightarrow> json option" where
  "JSON_parse text =
     (case parse_value (2 * length text + 2) (skip_ws text) of
        Parsed (v, r) \<Rightarrow> if skip_ws r = [] then Some v else None
      | _ \<Rightarrow> None)"

section \<open>JSON.stringify\<close>

definition hex_digit :: "nat \<Rightarrow> jschar" where
  "hex_digit d = (if d < 10 then of_nat (48 + d) else of_nat (87 + d))"

text \<open>\<open>\uXXXX\<close> with lower-case digits, as \<open>UnicodeEscape\<close> writes it.\<close>

definition unicode_escape :: "jschar \<Rightarrow> jstring" where
  "unicode_escape c =
     [0x5C, 0x75, hex_digit (unat c div 4096), hex_digit (unat c div 256 mod 16),
      hex_digit (unat c div 16 mod 16), hex_digit (unat c mod 16)]"

definition is_high_surrogate :: "jschar \<Rightarrow> bool" where
  "is_high_surrogate c = (0xD800 \<le> c \<and> c \<le> 0xDBFF)"

definition is_low_surrogate :: "jschar \<Rightarrow> bool" where
  "is_low_surrogate c = (0xDC00 \<le> c \<and> c \<le> 0xDFFF)"

text \<open>
  \<open>QuoteJSONString\<close> without the quotes: the two-character escapes, \<open>\uXXXX\<close> for the
  other control characters and for a surrogate that is not part of a pair, every other
  character as it is.
\<close>

definition escape_char :: "jschar \<Rightarrow> jstring" where
  "escape_char c =
     (if c = 0x08 then [0x5C, 0x62]
      else if c = 0x09 then [0x5C, 0x74]
      else if c = 0x0A then [0x5C, 0x6E]
      else if c = 0x0C then [0x5C, 0x66]
      else if c = 0x0D then [0x5C, 0x72]
      else if c = 0x22 then [0x5C, 0x22]
      else if c = 0x5C then [0x5C, 0x5C]
      else if c < 0x20 \<or> is_high_surrogate c \<or> is_low_surrogate c then unicode_escape c
      else [c])"

fun quote_chars :: "jstring \<Rightarrow> jstring" where
  "quote_chars [] = []"
| "quote_chars [c] = escape_char c"
| "quote_chars (c # d # cs) =
     (if is_high_surrogate c \<and> is_low_surrogate d then c # d # quote_chars cs
      else escape_char c @ quote_chars (d # cs))"

definition quote :: "jstring \<Rightarrow> jstring" where
  "quote s = 0x22 # quote_chars s @ [0x22]"

text \<open>
  A number too large for a double (at least \<open>2\<^sup>1\<^sup>0\<^sup>2\<^sup>4 - 2\<^sup>9\<^sup>7\<^sup>0\<close> in magnitude) was read as
  \<open>Infinity\<close>, which \<open>JSON.stringify\<close> writes as \<open>null\<close>.
\<close>

definition number_overflows :: "int \<Rightarrow> int \<Rightarrow> bool" where
  "number_overflows m e =
     (if 0 \<le> e then 2 ^ 1024 - 2 ^ 970 \<le> \<bar>m\<bar> * 10 ^ nat e
      else (2 ^ 1024 - 2 ^ 970) * 10 ^ nat (- e) \<le> \<bar>m\<bar>)"

text \<open>
  Any other number is written as its mantissa, followed by \<open>e\<close> and the exponent when
  that is not zero. (The engine writes the digits of the nearest double; the text
  differs, the number it denotes is the one that was read.)
\<close>

definition number_text :: "int \<Rightarrow> int \<Rightarrow> jstring" where
  "number_text m e = show_int m @ (if e = 0 then [] else 0x65 # show_int e)"

fun JSON_stringify :: "json \<Rightarrow> jstring"
  and stringify_elems :: "json list \<Rightarrow> jstring"
  and stringify_members :: "(jstring \<times> json) list \<Rightarrow> jstring"
where
  "JSON_stringify JNull = str ''null''"
| "JSON_stringify (JBool b) = (if b then str ''true'' else str ''false'')"
| "JSON_stringify (JNum m e) = (if number_overflows m e then str ''null'' else number_text m e)"
| "JSON_stringify (JStr s) = quote s"
| "JSON_stringify (JArr xs) = 0x5B # stringify_elems xs @ [0x5D]"
| "JSON_stringify (JObj kvs) = 0x7B # stringify_members kvs @ [0x7D]"
| "stringify_elems [] = []"
| "stringify_elems [x] = JSON_stringify x"
| "stringify_elems (x # y # ys) = JSON_stringify x @ 0x2C # stringify_elems (y # ys)"
| "stringify_members [] = []"
| "stringify_members [(k, v)] = quote k @ 0x3A # JSON_stringify v"
| "stringify_members ((k, v) # p # ps) =
     quote k @ 0x3A # JSON_stringify v @ 0x2C # stringify_members (p # ps)"

section \<open>Serialising and parsing again\<close>

text \<open>
  An object of the language has each key once; \<open>distinct_keys\<close> says so of every
  object inside a value.
\<close>

primrec distinct_keys :: "json \<Rightarrow> bool" where
  "distinct_keys JNull = True"
| "distinct_keys (JBool b) = True"
| "distinct_keys (JNum m e) = True"
| "distinct_keys (JStr s) = True"
| "distinct_keys (JArr xs) = list_all (\<lambda>b. b) (map distinct_keys xs)"
| "distinct_keys (JObj kvs) =
     (distinct (map fst kvs) \<and> list_all snd (map (map_prod id distinct_keys) kvs))"

text \<open>
  What a value becomes when it is written and read again: the numbers that had been
  read as \<open>Infinity\<close> come back as \<open>null\<close>, everything else as it was.
\<close>

primrec reparsed :: "json \<Rightarrow> json" where
  "reparsed JNull = JNull"
| "reparsed (JBool b) = JBool b"
| "reparsed (JNum m e) = (if number_overflows m e then JNull else JNum m e)"
| "reparsed (JStr s) = JStr s"
| "reparsed (JArr xs) = JArr (map reparsed xs)"
| "reparsed (JObj kvs) = JObj (map (map_prod id reparsed) kvs)"

text \<open>What may follow a value in a serialised text: nothing, a comma, or a closing bracket.\<close>

definition closes :: "jstring \<Rightarrow> bool" where
  "closes r = (case r of [] \<Rightarrow> True | c # _ \<Rightarrow> c = 0x2C \<or> c = 0x5D \<or> c = 0x7D)"

text \<open>A serialised value starts with a character that is neither white space nor a closing bracket.\<close>

definition opens :: "jstring \<Rightarrow> bool" where
  "opens s = (case s of [] \<Rightarrow> False | c # _ \<Rightarrow> \<not> is_json_ws c \<and> c \<noteq> 0x5D \<and> c \<noteq> 0x7D)"

section \<open>The validators of lib/validation.ts\<close>

text \<open>
  \<^verbatim>\<open>interface ValidationResult { isValid: boolean; errors: string[]; warnings: string[] }\<close>.
  Every validator fills two arrays with \<open>push\<close> as it goes; \<open>messages\<close> is that pair,
  passed along explicitly, and \<open>ValidationResult\<close> adds the flag.
\<close>

record messages =
  errors :: "jstring list"
  warnings :: "jstring list"

record ValidationResult = messages +
  isValid :: bool

definition no_messages :: messages where
  "no_messages = \<lparr>errors = [], warnings = []\<rparr>"

definition push_error :: "jstring \<Rightarrow> messages \<Rightarrow> messages" where
  "push_error msg st = st\<lparr>errors := errors st @ [msg]\<rparr>"

definition push_warning :: "jstring \<Rightarrow> messages \<Rightarrow> messages" where
  "push_warning msg st = st\<lparr>warnings := warnings st @ [msg]\<rparr>"

text \<open>\<^verbatim>\<open>return { isValid: errors.length === 0, errors, warnings }\<close>\<close>

definition result :: "messages \<Rightarrow> ValidationResult" where
  "result st = \<lparr>errors = errors st, warnings = warnings st, isValid = (length (errors st) = 0)\<rparr>"

text \<open>\<^verbatim>\<open>errors.push(msg); return { isValid: false, errors, warnings }\<close> at the head of a validator.\<close>

definition reject_with :: "jstring \<Rightarrow> ValidationResult" where
  "reject_with msg = \<lparr>errors = [msg], warnings = [], isValid = False\<rparr>"

subsection \<open>validatePrompt\<close>

definition dangerousPatterns :: "((jstring \<Rightarrow> bool) \<times> jstring) list" where
  "dangerousPatterns =
     [(regex_test rx_script, str ''Script tags are not allowed''),
      (regex_test rx_javascript, str ''JavaScript URLs are not allowed''),
      (regex_test rx_handler, str ''Event handlers are not allowed''),
      (regex_test rx_eval, str ''Eval functions are not allowed''),
      (regex_test rx_function, str ''Function definitions are not allowed''),
      (regex_test rx_import, str ''Import statements are not allowed''),
      (regex_test rx_require, str ''Require statements are not allowed'')]"

definition spamPatterns :: "((jstring \<Rightarrow> bool) \<times> jstring) list" where
  "spamPatterns =
     [(regex_test rx_repeated, str ''Repeated characters detected''),
      (test_spam_words, str ''Spam-like content detected'')]"

text \<open>\<^verbatim>\<open>for (const { pattern, message } of ...) if (pattern.test(text)) errors.push(message)\<close>\<close>

fun push_matching_errors :: "((jstring \<Rightarrow> bool) \<times> jstring) list \<Rightarrow> jstring \<Rightarrow> messages \<Rightarrow> messages" where
  "push_matching_errors [] text st = st"
| "push_matching_errors ((test, message) # ps) text st =
     push_matching_errors ps text (if test text then push_error message st else st)"

fun push_matching_warnings :: "((jstring \<Rightarrow> bool) \<times> jstring) list \<Rightarrow> jstring \<Rightarrow> messages \<Rightarrow> messages" where
  "push_matching_warnings [] text st = st"
| "push_matching_warnings ((test, message) # ps) text st =
     push_matching_warnings ps text (if test text then push_warning message st else st)"

text \<open>
  The argument is a string, as the signature says; \<open>!prompt\<close> is then the test for the
  empty string.
\<close>

definition validatePrompt :: "jstring \<Rightarrow> ValidationResult" where
  "validatePrompt prompt =
     (if prompt = [] then reject_with (str ''Prompt is required and must be a string'')
      else
        let trimmedPrompt = trim prompt;
            st1 = (if length trimmedPrompt < 3
                   then push_error (str ''Prompt must be at least 3 characters long'') no_messages
                   else no_messages);
            st2 = (if length trimmedPrompt > 1000
                   then push_error (str ''Prompt must be less than 1000 characters'') st1
                   else st1);
            st3 = (if length trimmedPrompt > 500
                   then push_warning (str ''Long prompts may take longer to process'') st2
                   else st2);
            st4 = push_matching_errors dangerousPatterns trimmedPrompt st3;
            st5 = push_matching_warnings spamPatterns trimmedPrompt st4
        in result st5)"

subsection \<open>validateTemplateStructure\<close>

text \<open>The string and the elements of a value already known to be a string, or an array.\<close>

fun the_string :: "json option \<Rightarrow> jstring" where
  "the_string (Some (JStr s)) = s"
| "the_string _ = []"

fun the_elements :: "json option \<Rightarrow> json list" where
  "the_elements (Some (JArr xs)) = xs"
| "the_elements _ = []"

text \<open>\<open>array.forEach((element, index) => ...)\<close>, the callback acting on the messages.\<close>

fun forEach_from :: "nat \<Rightarrow> (json \<Rightarrow> nat \<Rightarrow> messages \<Rightarrow> messages) \<Rightarrow> json list \<Rightarrow> messages \<Rightarrow> messages" where
  "forEach_from i f [] st = st"
| "forEach_from i f (x # xs) st = forEach_from (Suc i) f xs (f x i st)"

definition forEach :: "(json \<Rightarrow> nat \<Rightarrow> messages \<Rightarrow> messages) \<Rightarrow> json list \<Rightarrow> messages \<Rightarrow> messages" where
  "forEach f xs st = forEach_from 0 f xs st"

definition validate_title :: "json \<Rightarrow> messages \<Rightarrow> messages" where
  "validate_title template st =
     (let title = get_prop template ''title'' in
      if \<not> truthy title \<or> typeof title \<noteq> ''string'' then
        push_error (str ''Title is required and must be a string'') st
      else if length (trim (the_string title)) = 0 then
        push_error (str ''Title cannot be empty'') st
      else if length (the_string title) > 200 then
        push_warning (str ''Title is quite long, consider shortening it'') st
      else st)"

definition validate_section :: "json \<Rightarrow> nat \<Rightarrow> messages \<Rightarrow> messages" where
  "validate_section section index st =
     (if \<not> truthy (Some section) \<or> typeof (Some section) \<noteq> ''object'' then
        push_error (str ''Section '' @ show_nat (index + 1) @ str '' must be an object'') st
      else
        let name = get_prop section ''name'';
            description = get_prop section ''description'';
            st1 =
              (if \<not> truthy name \<or> typeof name \<noteq> ''string'' then
                 push_error (str ''Section '' @ show_nat (index + 1) @
                             str '': name is required and must be a string'') st
               else if length (trim (the_string name)) = 0 then
                 push_error (str ''Section '' @ show_nat (index + 1) @
                             str '': name cannot be empty'') st
               else st)
        in
          if \<not> truthy description \<or> typeof description \<noteq> ''string'' then
            push_error (str ''Section '' @ show_nat (index + 1) @
                        str '': description is required and must be a string'') st1
          else if length (trim (the_string description)) = 0 then
            push_error (str ''Section '' @ show_nat (index + 1) @
                        str '': description cannot be empty'') st1
          else if length (the_string description) > 500 then
            push_warning (str ''Section '' @ show_nat (index + 1) @
                          str '': description is quite long'') st1
          else st1)"

definition validate_sections :: "json \<Rightarrow> messages \<Rightarrow> messages" where
  "validate_sections template st =
     (let sections = get_prop template ''sections'' in
      if \<not> isArray sections then push_error (str ''Sections must be an array'') st
      else
        let st1 =
              (if length (the_elements sections) = 0 then
                 push_warning (str ''No sections defined'') st
               else if length (the_elements sections) > 20 then
                 push_warning (str ''Many sections defined, consider simplifying'') st
               else st)
        in forEach validate_section (the_elements sections) st1)"

definition validPropertyTypes :: "jstring list" where
  "validPropertyTypes =
     [str ''text'', str ''select'', str ''multi-select'', str ''number'', str ''date'',
      str ''checkbox'', str ''url'', str ''email'', str ''phone'', str ''formula'',
      str ''relation'', str ''rollup'', str ''created_time'', str ''created_by'',
      str ''last_edited_time'', str ''last_edited_by'', str ''files'', str ''status'']"

definition validate_property :: "json \<Rightarrow> nat \<Rightarrow> messages \<Rightarrow> messages" where
  "validate_property property index st =
     (if \<not> truthy (Some property) \<or> typeof (Some property) \<noteq> ''object'' then
        push_error (str ''Property '' @ show_nat (index + 1) @ str '' must be an object'') st
      else
        let name = get_prop property ''name'';
            type = get_prop property ''type'';
            description = get_prop property ''description'';
            st1 =
              (if \<not> truthy name \<or> typeof name \<noteq> ''string'' then
                 push_error (str ''Property '' @ show_nat (index + 1) @
                             str '': name is required and must be a string'') st
               else if length (trim (the_string name)) = 0 then
                 push_error (str ''Property '' @ show_nat (index + 1) @
                             str '': name cannot be empty'') st
               else st);
            st2 =
              (if \<not> truthy type \<or> typeof type \<noteq> ''string'' then
                 push_error (str ''Property '' @ show_nat (index + 1) @
                             str '': type is required and must be a string'') st1
               else if the_string type \<notin> set validPropertyTypes then
                 push_error (str ''Property '' @ show_nat (index + 1) @
                             str '': type must be one of: '' @
                             join (str '', '') validPropertyTypes) st1
               else st1)
        in
          if \<not> truthy description \<or> typeof description \<noteq> ''string'' then
            push_error (str ''Property '' @ show_nat (index + 1) @
                        str '': description is required and must be a string'') st2
          else if length (trim (the_string description)) = 0 then
            push_error (str ''Property '' @ show_nat (index + 1) @
                        str '': description cannot be empty'') st2
          else if length (the_string description) > 300 then
            push_warning (str ''Property '' @ show_nat (index + 1) @
                          str '': description is quite long'') st2
          else st2)"

definition validate_properties :: "json \<Rightarrow> messages \<Rightarrow> messages" where
  "validate_properties template st =
     (let properties = get_prop template ''properties'' in
      if \<not> isArray properties then push_error (str ''Properties must be an array'') st
      else
        let st1 =
              (if length (the_elements properties) = 0 then
                 push_warning (str ''No properties defined'') st
               else if length (the_elements properties) > 50 then
                 push_warning (str ''Many properties defined, consider simplifying'') st
               else st)
        in forEach validate_property (the_elements properties) st1)"

definition validate_notes :: "json \<Rightarrow> messages \<Rightarrow> messages" where
  "validate_notes template st =
     (let notes = get_prop template ''notes'' in
      if notes \<noteq> None then
        (if typeof notes \<noteq> ''string'' then
           push_error (str ''Notes must be a string if provided'') st
         else if length (the_string notes) > 1000 then
           push_warning (str ''Notes are quite long'') st
         else st)
      else st)"

definition validateTemplateStructure :: "json \<Rightarrow> ValidationResult" where
  "validateTemplateStructure template =
     (if \<not> truthy (Some template) \<or> typeof (Some template) \<noteq> ''object'' then
        reject_with (str ''Template must be an object'')
      else
        result (validate_notes template
                 (validate_properties template
                   (validate_sections template
                     (validate_title template no_messages)))))"

subsection \<open>validateEnvironment\<close>

text \<open>\<open>process.env\<close> is the argument: a variable is a string, or not set.\<close>

type_synonym environment = "jstring \<rightharpoonup> jstring"

text \<open>\<open>!process.env[name]\<close>: not set, or set to the empty string.\<close>

definition env_missing :: "environment \<Rightarrow> jstring \<Rightarrow> bool" where
  "env_missing env name = (case env name of None \<Rightarrow> True | Some v \<Rightarrow> v = [])"

definition env_value :: "environment \<Rightarrow> jstring \<Rightarrow> jstring" where
  "env_value env name = (case env name of None \<Rightarrow> [] | Some v \<Rightarrow> v)"

fun check_required :: "environment \<Rightarrow> jstring list \<Rightarrow> messages \<Rightarrow> messages" where
  "check_required env [] st = st"
| "check_required env (envVar # vs) st =
     check_required env vs
       (if env_missing env envVar
        then push_error (str ''Required environment variable '' @ envVar @ str '' is not set'') st
        else st)"

fun check_optional :: "environment \<Rightarrow> jstring list \<Rightarrow> messages \<Rightarrow> messages" where
  "check_optional env [] st = st"
| "check_optional env (envVar # vs) st =
     check_optional env vs
       (if env_missing env envVar
        then push_warning (str ''Optional environment variable '' @ envVar @ str '' is not set'') st
        else st)"

definition validateEnvironment :: "environment \<Rightarrow> ValidationResult" where
  "validateEnvironment env =
     (let requiredEnvVars = [str ''HF_API_KEY''];
          optionalEnvVars = [str ''GITHUB_TOKEN''];
          st1 = check_required env requiredEnvVars no_messages;
          st2 = check_optional env optionalEnvVars st1;
          key = env_value env (str ''HF_API_KEY'');
          st3 = (if \<not> env_missing env (str ''HF_API_KEY'') then
                   (let st' = (if \<not> startsWith key (str ''hf_'')
                               then push_error (str ''HF_API_KEY should start with \"hf_\"'') st2
                               else st2)
                    in if length key < 20
                       then push_warning (str ''HF_API_KEY seems too short'') st'
                       else st')
                 else st2);
          token = env_value env (str ''GITHUB_TOKEN'');
          st4 = (if \<not> env_missing env (str ''GITHUB_TOKEN'') then
                   (if \<not> startsWith token (str ''ghp_'') \<and> \<not> startsWith token (str ''gho_'')
                    then push_warning (str ''GITHUB_TOKEN should start with \"ghp_\" or \"gho_\"'') st3
                    else st3)
                 else st3)
      in result st4)"

subsection \<open>validateRateLimit\<close>

text \<open>
  The three numbers of \<open>validateRateLimit\<close> are doubles. They are given here by
  integers, each standing for the Number value of that integer: the double nearest to
  it, the one with the even significand when two are equally near, and an infinity when
  the rounded magnitude reaches \<open>2 ^ 1024\<close>. Fractions and NaN are not covered.

  \<open>bits n\<close> is the length of \<open>n\<close> in binary and \<open>nearest n\<close> is \<open>n\<close> rounded to 53
  significant bits, ties to even.
\<close>

fun bits :: "nat \<Rightarrow> nat" where
  "bits n = (if n = 0 then 0 else Suc (bits (n div 2)))"

declare bits.simps [simp del]

definition nearest :: "nat \<Rightarrow> nat" where
  "nearest n =
     (let d = bits n - 53; q = n div 2 ^ d; r = n mod 2 ^ d
      in if 2 ^ d < 2 * r \<or> (2 * r = 2 ^ d \<and> odd q) then (q + 1) * 2 ^ d else q * 2 ^ d)"

datatype number = Finite int | Infinity | MinusInfinity

definition Number :: "int \<Rightarrow> number" where
  "Number i =
     (let v = nearest (nat \<bar>i\<bar>)
      in if 2 ^ 1024 \<le> v then (if i < 0 then MinusInfinity else Infinity)
         else Finite (if i < 0 then - int v else int v))"

text \<open>\<open>a > b\<close> on these Number values.\<close>

fun greater :: "number \<Rightarrow> number \<Rightarrow> bool" where
  "greater (Finite a) (Finite b) = (b < a)"
| "greater (Finite a) Infinity = False"
| "greater (Finite a) MinusInfinity = True"
| "greater Infinity b = (b \<noteq> Infinity)"
| "greater MinusInfinity b = False"

text \<open>
  \<open>a > b * 0.8\<close>. The literal \<open>0.8\<close> is the double \<open>3602879701896397 / 2 ^ 52\<close>, and the
  product of two doubles is their exact product rounded to the nearest double;
  \<open>times_0_8 b\<close> is \<open>2 ^ 52\<close> times that double. For a finite \<open>b\<close> the product is
  finite, and it is at least \<open>0.8\<close> in magnitude or zero, so that rounding it is rounding
  to 53 significant bits. An infinity times \<open>0.8\<close> is that infinity.
\<close>

definition times_0_8 :: "int \<Rightarrow> int" where
  "times_0_8 b =
     (if b < 0 then - int (nearest (nat (- b) * 3602879701896397))
      else int (nearest (nat b * 3602879701896397)))"

fun greater_times_0_8 :: "number \<Rightarrow> number \<Rightarrow> bool" where
  "greater_times_0_8 (Finite a) (Finite b) = (times_0_8 b < a * 2 ^ 52)"
| "greater_times_0_8 (Finite a) Infinity = False"
| "greater_times_0_8 (Finite a) MinusInfinity = True"
| "greater_times_0_8 Infinity b = (b \<noteq> Infinity)"
| "greater_times_0_8 MinusInfinity b = False"

text \<open>
  \<open>${x}\<close> in a template literal, \<open>Number::toString\<close>, for these Number values. The digits
  are the fewest that read back as \<open>x\<close>: for a magnitude \<open>x\<close> of \<open>n\<close> digits and each
  power of ten \<open>p\<close> from \<open>10 ^ (n - 1)\<close> down, \<open>pick x p s\<close> looks at the two multiples of \<open>p\<close>
  around \<open>x\<close>, \<open>s \<times> p\<close> and \<open>(s + 1) \<times> p\<close>, and takes one whose Number value is \<open>x\<close>,
  the nearer one to \<open>x\<close> when both are, the even \<open>s\<close> at equal distance; with \<open>p = 1\<close>
  it is \<open>x\<close> itself. The value found is written with all its digits when it has at most
  21 of them, and as \<open>d.ddde+n\<close> otherwise.
\<close>

definition pick :: "nat \<Rightarrow> nat \<Rightarrow> nat \<Rightarrow> nat option" where
  "pick x p s =
     (if nearest (s * p) = x \<and>
         (nearest (Suc s * p) \<noteq> x \<or> x - s * p < Suc s * p - x \<or>
          (x - s * p = Suc s * p - x \<and> even s))
      then Some (s * p)
      else if nearest (Suc s * p) = x then Some (Suc s * p)
      else None)"

definition shortest_at :: "nat \<Rightarrow> nat \<Rightarrow> nat option" where
  "shortest_at x p = pick x p (x div p)"

fun shortest :: "nat \<Rightarrow> nat \<Rightarrow> nat" where
  "shortest x 0 = x"
| "shortest x (Suc j) =
     (case shortest_at x (10 ^ Suc j) of Some v \<Rightarrow> v | None \<Rightarrow> shortest x j)"

definition exponential :: "jstring \<Rightarrow> jstring" where
  "exponential ds =
     (case rev (dropWhile (\<lambda>c. c = ch CHR ''0'') (rev ds)) of
        [] \<Rightarrow> []
      | c # cs \<Rightarrow> c # (if cs = [] then [] else ch CHR ''.'' # cs) @ str ''e+'' @
                  show_nat (length ds - 1))"

definition magnitude_text :: "nat \<Rightarrow> jstring" where
  "magnitude_text x =
     (let ds = show_nat (shortest x (length (show_nat x) - 1))
      in if length ds \<le> 21 then ds else exponential ds)"

fun Number_toString :: "number \<Rightarrow> jstring" where
  "Number_toString Infinity = str ''Infinity''"
| "Number_toString MinusInfinity = str ''-Infinity''"
| "Number_toString (Finite i) =
     (if i < 0 then ch CHR ''-'' # magnitude_text (nat (- i)) else magnitude_text (nat i))"

definition validateRateLimit :: "jstring \<Rightarrow> int \<Rightarrow> int \<Rightarrow> int \<Rightarrow> ValidationResult" where
  "validateRateLimit ip requestCount windowMs maxRequests =
     (let st1 = (if ip = [] \<or> ip = str ''unknown''
                 then push_warning (str ''Unable to determine client IP for rate limiting'') no_messages
                 else no_messages);
          st2 = (if greater (Number requestCount) (Number maxRequests) then
                   push_error (str ''Rate limit exceeded: '' @
                               Number_toString (Number requestCount) @ str ''/'' @
                               Number_toString (Number maxRequests) @ str '' requests in '' @
                               Number_toString (Number windowMs) @ str ''ms'') st1
                 else if greater_times_0_8 (Number requestCount) (Number maxRequests) then
                   push_warning (str ''Approaching rate limit: '' @
                                 Number_toString (Number requestCount) @ str ''/'' @
                                 Number_toString (Number maxRequests) @ str '' requests'') st1
                 else st1)
      in result st2)"

subsection \<open>validateJSON\<close>

text \<open>
  The message of the SyntaxError that \<open>JSON.parse\<close> throws is the engine's own; it is
  the parameter \<open>engine_message\<close>.
\<close>

definition validateJSON :: "(jstring \<Rightarrow> jstring) \<Rightarrow> jstring \<Rightarrow> ValidationResult" where
  "validateJSON engine_message jsonString =
     (case JSON_parse jsonString of
        Some parsed \<Rightarrow>
          result (if typeof (Some parsed) \<noteq> ''object'' \<or> parsed = JNull
                  then push_error (str ''JSON must be an object'') no_messages
                  else no_messages)
      | None \<Rightarrow> reject_with (str ''Invalid JSON: '' @ engine_message jsonString))"

section \<open>The generation endpoint (app/api/generate/route.ts)\<close>

subsection \<open>The endpoint's own validatePrompt\<close>

text \<open>
  \<^verbatim>\<open>{ isValid: true }\<close> or \<^verbatim>\<open>{ isValid: false, error }\<close>: this function of the route
  file is not the one of lib/validation.ts. It measures the prompt as it is, untrimmed,
  and answers with the first failure.
\<close>

datatype prompt_check = Valid | Invalid jstring

definition route_dangerousPatterns :: "pattern list" where
  "route_dangerousPatterns = [rx_script, rx_javascript, rx_handler, rx_eval, rx_function]"

definition route_validatePrompt :: "jstring \<Rightarrow> prompt_check" where
  "route_validatePrompt prompt =
     (if prompt = [] then Invalid (str ''Prompt is required and must be a string'')
      else if length prompt < 3 then Invalid (str ''Prompt must be at least 3 characters long'')
      else if length prompt > 1000 then Invalid (str ''Prompt must be less than 1000 characters'')
      else if list_ex (\<lambda>pattern. regex_test pattern prompt) route_dangerousPatterns
        then Invalid (str ''Invalid characters detected in prompt'')
      else Valid)"

subsection \<open>safeJSONParse\<close>

text \<open>
  \<^verbatim>\<open>/<script\b[^<]*(?:(?!<\/script>)<[^<]*)*<\/script>/gi\<close>. After \<open><script\<close> and the
  word boundary the pattern walks over the text, stopping at each \<open><\<close>: the group
  may pass a \<open><\<close> only where no closing tag starts, and the pattern ends with the
  closing tag. So a match runs to the first closing tag after the opening one, and there
  is none when no closing tag follows.
\<close>

fun script_body :: pattern where
  "script_body [] = None"
| "script_body (c # cs) =
     (if c = 0x3C then
        (case lit_ci (str ''</script>'') (c # cs) of
           Some r \<Rightarrow> Some r
         | None \<Rightarrow> script_body cs)
      else script_body cs)"

definition word_boundary_after_word :: "jstring \<Rightarrow> bool" where
  "word_boundary_after_word s = (case s of [] \<Rightarrow> True | c # _ \<Rightarrow> \<not> is_word c)"

definition rx_script_element :: pattern where
  "rx_script_element s =
     (case lit_ci (str ''<script'') s of
        None \<Rightarrow> None
      | Some r \<Rightarrow> if word_boundary_after_word r then script_body r else None)"

lemma lit_ci_length: "lit_ci p s = Some r \<Longrightarrow> length r + length p = length s"
  by (induction p s rule: lit_ci.induct) (auto split: if_splits)

lemma script_body_length: "script_body s = Some r \<Longrightarrow> length r < length s"
proof (induction s)
  case Nil
  then show ?case by simp
next
  case (Cons c cs)
  then show ?case
    by (auto split: if_splits option.splits dest!: lit_ci_length simp: str_def)
qed

lemma rx_script_element_length: "rx_script_element s = Some r \<Longrightarrow> length r < length s"
  by (auto simp: rx_script_element_def split: option.splits if_splits
      dest!: script_body_length lit_ci_length)

text \<open>
  \<open>text.replace(pattern, '')\<close> with the \<open>g\<close> flag: every match, found from left to
  right, each search starting where the last match ended, is cut out.
\<close>

function strip_scripts :: "jstring \<Rightarrow> jstring" where
  "strip_scripts [] = []"
| "strip_scripts (c # cs) =
     (case rx_script_element (c # cs) of
        Some r \<Rightarrow> strip_scripts r
      | None \<Rightarrow> c # strip_scripts cs)"
  by pat_completeness auto
termination
  by (relation "measure length") (auto dest: rx_script_element_length)

text \<open>
  \<^verbatim>\<open>cleanedText.match(/\{[\s\S]*\}/)\<close>: from the first opening brace to the last closing
  brace after it; no match when no closing brace follows an opening one.
\<close>

definition match_braces :: "jstring \<Rightarrow> jstring option" where
  "match_braces s =
     (let r = dropWhile (\<lambda>c. c \<noteq> 0x7B) s in
      if 0x7D \<in> set r then Some (rev (dropWhile (\<lambda>c. c \<noteq> 0x7D) (rev r))) else None)"

definition fallback_template :: json where
  "fallback_template =
     JObj [(str ''title'', JStr (str ''Template Generation Error'')),
           (str ''sections'', JArr []),
           (str ''properties'', JArr []),
           (str ''notes'', JStr (str ''Failed to parse AI response. Please try again.''))]"

text \<open>
  The \<open>try\<close> block of the function; \<open>None\<close> when it throws, by its own \<open>throw\<close>
  (no match) or by the SyntaxError of \<open>JSON.parse\<close>.
\<close>

definition safeJSONParse_try :: "jstring \<Rightarrow> json option" where
  "safeJSONParse_try text =
     (let cleanedText = strip_scripts text in
      case match_braces cleanedText of
        None \<Rightarrow> None
      | Some jsonMatch \<Rightarrow> JSON_parse jsonMatch)"

text \<open>The \<open>catch\<close> block returns the fallback template.\<close>

definition safeJSONParse :: "jstring \<Rightarrow> json" where
  "safeJSONParse text =
     (case safeJSONParse_try text of
        None \<Rightarrow> fallback_template
      | Some parsed \<Rightarrow> parsed)"

subsection \<open>The end of POST: from the generated text to the response\<close>

text \<open>\<open>NextResponse.json(body, { status })\<close>; the status is 200 when none is given.\<close>

record response =
  status :: nat
  body :: json

definition POST_respond :: "jstring \<Rightarrow> response" where
  "POST_respond generatedText =
     (let template = safeJSONParse generatedText in
      if \<not> truthy (get_prop template ''title'') \<or>
         \<not> isArray (get_prop template ''sections'') \<or>
         \<not> isArray (get_prop template ''properties'') then
        \<lparr>status = 500,
         body = JObj [(str ''ok'', JBool False),
                      (str ''error'', JStr (str ''Invalid template generated. Please try again.''))]\<rparr>
      else
        \<lparr>status = 200,
         body = JObj [(str ''ok'', JBool True), (str ''template'', template)]\<rparr>)"

section \<open>Evaluating the model on concrete inputs\<close>

text \<open>
  The equations of the parser with the fuel as a number rather than a successor, and the
  definitions that the simplifier unfolds to run the model on a given text.
\<close>

lemma parse_value_pos:
  "0 < n \<Longrightarrow> parse_value n (c # cs) =
     (if c = 0x5B then
        (case skip_ws cs of
           [] \<Rightarrow> SyntaxError
         | d # ds \<Rightarrow> if d = 0x5D then Parsed (JArr [], ds) else parse_elems (n - 1) (d # ds) [])
      else if c = 0x7B then
        (case skip_ws cs of
           [] \<Rightarrow> SyntaxError
         | d # ds \<Rightarrow> if d = 0x7D then Parsed (JObj [], ds) else parse_members (n - 1) (d # ds) [])
      else if c = 0x22 then
        (case parse_chars cs of
           None \<Rightarrow> SyntaxError
         | Some (s, rest) \<Rightarrow> Parsed (JStr s, rest))
      else if c = 0x2D \<or> is_digit c then of_option (parse_number (c # cs))
      else of_option (parse_literal (c # cs)))"
  by (cases n) (simp_all cong: parse_result.case_cong list.case_cong option.case_cong prod.case_cong if_cong)

lemma parse_value_pos_Nil: "0 < n \<Longrightarrow> parse_value n [] = SyntaxError"
  by (cases n) simp_all

lemma parse_members_pos_Nil: "0 < n \<Longrightarrow> parse_members n [] acc = SyntaxError"
  by (cases n) simp_all

lemma parse_elems_pos:
  "0 < n \<Longrightarrow> parse_elems n s acc =
     (case parse_value (n - 1) s of
        OutOfFuel \<Rightarrow> OutOfFuel
      | SyntaxError \<Rightarrow> SyntaxError
      | Parsed (v, r) \<Rightarrow>
          (case skip_ws r of
             [] \<Rightarrow> SyntaxError
           | d # ds \<Rightarrow>
               if d = 0x2C then parse_elems (n - 1) (skip_ws ds) (acc @ [v])
               else if d = 0x5D then Parsed (JArr (acc @ [v]), ds)
               else SyntaxError))"
  by (cases n) (simp_all cong: parse_result.case_cong list.case_cong option.case_cong prod.case_cong if_cong)

lemma parse_members_pos:
  "0 < n \<Longrightarrow> parse_members n (c # cs) acc =
     (if c = 0x22 then
        (case parse_chars cs of
           None \<Rightarrow> SyntaxError
         | Some (k, r) \<Rightarrow>
             (case skip_ws r of
                [] \<Rightarrow> SyntaxError
              | d # ds \<Rightarrow>
                  if d = 0x3A then
                    (case parse_value (n - 1) (skip_ws ds) of
                       OutOfFuel \<Rightarrow> OutOfFuel
                     | SyntaxError \<Rightarrow> SyntaxError
                     | Parsed (v, r') \<Rightarrow>
                         (case skip_ws r' of
                            [] \<Rightarrow> SyntaxError
                          | d' # ds' \<Rightarrow>
                              if d' = 0x2C then parse_members (n - 1) (skip_ws ds') (put_prop k v acc)
                              else if d' = 0x7D then Parsed (JObj (put_prop k v acc), ds')
                              else SyntaxError))
                  else SyntaxError))
      else SyntaxError)"
  by (cases n) (simp_all cong: parse_result.case_cong list.case_cong option.case_cong prod.case_cong if_cong)

lemmas string_eval =
  str_def ch_def trim_def is_space_def is_line_terminator_def is_word_def ci_eq_def
  ascii_lower_def startsWith_def show_nat.simps show_int_def digit_char_def

lemmas prompt_eval =
  validatePrompt_def dangerousPatterns_def spamPatterns_def rx_script_def rx_javascript_def
  rx_handler_def rx_eval_def rx_function_def rx_import_def rx_require_def rx_repeated_def
  seq_def plus_def star_def test_spam_words_def keyword_here_def spam_words_def Let_def

lemmas json_eval =
  JSON_parse_def parse_value_pos parse_elems_pos parse_members_pos parse_value_pos_Nil
  parse_members_pos_Nil skip_ws_def is_json_ws_def
  is_digit_def parse_number_def parse_unsigned_def parse_int_part_def parse_frac_part_def
  parse_exp_part_def parse_exp_digits_def parse_literal_def of_option_def startsWith_def
  digits_val_def digit_val_def simple_escape_def hex4_def hex_val_def str_def ch_def

lemmas extract_eval =
  safeJSONParse_def safeJSONParse_try_def match_braces_def rx_script_element_def
  word_boundary_after_word_def is_word_def ci_eq_def ascii_lower_def Let_def

lemmas template_eval =
  validateTemplateStructure_def validate_title_def validate_sections_def validate_section_def
  validate_properties_def validate_property_def validate_notes_def forEach_def
  validPropertyTypes_def result_def reject_with_def no_messages_def push_error_def
  push_warning_def Let_def

lemmas number_eval =
  Number_def nearest_def bits.simps times_0_8_def

lemmas toString_eval =
  magnitude_text_def shortest_at_def pick_def exponential_def show_nat.simps digit_char_def
  str_def ch_def Let_def
section \<open>The messages a validator has pushed\<close>

lemma errors_push_error [simp]: "errors (push_error m st) = errors st @ [m]"
  by (simp add: push_error_def)

lemma warnings_push_error [simp]: "warnings (push_error m st) = warnings st"
  by (simp add: push_error_def)

lemma errors_push_warning [simp]: "errors (push_warning m st) = errors st"
  by (simp add: push_warning_def)

lemma warnings_push_warning [simp]: "warnings (push_warning m st) = warnings st @ [m]"
  by (simp add: push_warning_def)

lemma result_simps [simp]:
  "errors (result st) = errors st"
  "warnings (result st) = warnings st"
  "isValid (result st) = (errors st = [])"
  by (simp_all add: result_def)

lemma reject_with_simps [simp]:
  "errors (reject_with m) = [m]"
  "warnings (reject_with m) = []"
  "isValid (reject_with m) = False"
  by (simp_all add: reject_with_def)

lemma no_messages_simps [simp]:
  "errors no_messages = []"
  "warnings no_messages = []"
  by (simp_all add: no_messages_def)

section \<open>The parser on arbitrary text\<close>

lemma skip_ws_length: "length (skip_ws s) \<le> length s"
  by (simp add: skip_ws_def length_dropWhile_le)

lemma skip_ws_Cons_length: "skip_ws s = d # ds \<Longrightarrow> length ds < length s"
  using skip_ws_length [of s] by simp

lemma less_skip_ws: "length r < length (skip_ws t) \<Longrightarrow> length r < length t"
  using skip_ws_length [of t] by simp

lemma parse_chars_length: "parse_chars s = Some (k, r) \<Longrightarrow> length r < length s"
proof (induction s arbitrary: k r rule: parse_chars.induct)
  case 1
  then show ?case by simp
next
  case (2 c cs)
  then show ?case
    by (auto split: if_splits list.splits option.splits prod.splits) force+
qed

lemma dropWhile_shorter: "length (dropWhile P s) \<le> length s"
  by (rule length_dropWhile_le)

lemma parse_int_part_length: "parse_int_part s = Some (ip, r) \<Longrightarrow> length r < length s"
  using dropWhile_shorter [of is_digit "tl s"]
  by (cases s) (auto simp add: parse_int_part_def split: if_splits)

lemma parse_frac_part_length: "parse_frac_part s = Some (fp, r) \<Longrightarrow> length r \<le> length s"
  using dropWhile_shorter [of is_digit "tl s"]
  by (cases s) (auto simp add: parse_frac_part_def split: if_splits)

lemma parse_exp_digits_length: "parse_exp_digits neg s = Some (e, r) \<Longrightarrow> length r \<le> length s"
  using dropWhile_shorter [of is_digit s]
  by (auto simp add: parse_exp_digits_def split: if_splits)

lemma parse_exp_part_length: "parse_exp_part s = Some (e, r) \<Longrightarrow> length r \<le> length s"
  by (cases s) (auto simp add: parse_exp_part_def split: if_splits list.splits
      dest!: parse_exp_digits_length)

lemma parse_unsigned_length: "parse_unsigned neg s = Some (v, r) \<Longrightarrow> length r < length s"
  by (auto simp add: parse_unsigned_def split: option.splits prod.splits
      dest!: parse_int_part_length parse_frac_part_length parse_exp_part_length)

lemma parse_number_length: "parse_number s = Some (v, r) \<Longrightarrow> length r < length s"
  by (cases s) (auto simp add: parse_number_def split: if_splits dest!: parse_unsigned_length)

lemma parse_literal_length: "parse_literal s = Some (v, r) \<Longrightarrow> length r < length s"
  by (cases s) (auto simp add: parse_literal_def startsWith_def str_def split: if_splits)

text \<open>Whatever is parsed takes at least one character.\<close>

lemma parse_consumes:
  "(parse_value n s = Parsed (v, r) \<longrightarrow> length r < length s) \<and>
   (parse_elems n s acc = Parsed (v, r) \<longrightarrow> length r < length s) \<and>
   (parse_members n s acc' = Parsed (v, r) \<longrightarrow> length r < length s)"
proof (induction n arbitrary: s v r acc acc')
  case 0
  then show ?case by simp
next
  case (Suc n)
  have V: "parse_value n s = Parsed (v, r) \<Longrightarrow> length r < length s" for s v r
    using Suc by blast
  have E: "parse_elems n s acc = Parsed (v, r) \<Longrightarrow> length r < length s" for s v r acc
    using Suc by blast
  have M: "parse_members n s acc' = Parsed (v, r) \<Longrightarrow> length r < length s" for s v r acc'
    using Suc by blast
  have "length r < length s" if "parse_value (Suc n) s = Parsed (v, r)"
  proof (cases s)
    case Nil
    then show ?thesis using that by simp
  next
    case (Cons c cs)
    show ?thesis
      using that skip_ws_length [of cs]
      by (auto simp add: Cons of_option_def
          split: if_splits list.splits option.splits prod.splits
          dest!: E M parse_chars_length parse_number_length parse_literal_length
                 skip_ws_Cons_length)
  qed
  moreover have "length r < length s" if "parse_elems (Suc n) s acc = Parsed (v, r)"
    using that
    by (auto split: parse_result.splits prod.splits list.splits if_splits
        dest!: V E skip_ws_Cons_length less_skip_ws)
  moreover have "length r < length s" if "parse_members (Suc n) s acc' = Parsed (v, r)"
  proof (cases s)
    case Nil
    then show ?thesis using that by simp
  next
    case (Cons c cs)
    show ?thesis
      using that
      by (auto simp add: Cons
          split: parse_result.splits prod.splits list.splits if_splits option.splits
          dest!: V M parse_chars_length skip_ws_Cons_length less_skip_ws)
  qed
  ultimately show ?case by blast
qed

lemmas parse_value_consumes = parse_consumes [THEN conjunct1, rule_format]

text \<open>
  Fuel of twice the length of the text and a little more is never used up: a failure of
  \<open>JSON_parse\<close> is a syntax error of the text.
\<close>

lemma parse_fuel_enough:
  "(2 * length s + 1 \<le> n \<longrightarrow> parse_value n s \<noteq> OutOfFuel) \<and>
   (2 * length s + 2 \<le> n \<longrightarrow> parse_elems n s acc \<noteq> OutOfFuel) \<and>
   (2 * length s + 2 \<le> n \<longrightarrow> parse_members n s acc' \<noteq> OutOfFuel)"
proof (induction n arbitrary: s acc acc')
  case 0
  then show ?case by simp
next
  case (Suc n)
  have V: "2 * length s + 1 \<le> n \<Longrightarrow> parse_value n s \<noteq> OutOfFuel" for s
    using Suc by blast
  have E: "2 * length s + 2 \<le> n \<Longrightarrow> parse_elems n s acc \<noteq> OutOfFuel" for s acc
    using Suc by blast
  have M: "2 * length s + 2 \<le> n \<Longrightarrow> parse_members n s acc' \<noteq> OutOfFuel" for s acc'
    using Suc by blast
  have "parse_value (Suc n) s \<noteq> OutOfFuel" if n: "2 * length s + 1 \<le> Suc n"
  proof (cases s)
    case Nil
    then show ?thesis by simp
  next
    case (Cons c cs)
    have sub: "2 * length (skip_ws cs) + 2 \<le> n"
      using n skip_ws_length [of cs] by (simp add: Cons)
    consider (arr) "c = 0x5B" | (obj) "c \<noteq> 0x5B" "c = 0x7B" | (atom) "c \<noteq> 0x5B" "c \<noteq> 0x7B"
      by blast
    then show ?thesis
    proof cases
      case arr
      show ?thesis
      proof (cases "skip_ws cs")
        case Nil
        then show ?thesis by (simp add: Cons arr)
      next
        case (Cons d ds)
        have "parse_elems n (d # ds) [] \<noteq> OutOfFuel"
          using sub E [of "d # ds" "[]"] by (simp add: Cons)
        then show ?thesis
          by (simp add: \<open>s = c # cs\<close> arr Cons)
      qed
    next
      case obj
      show ?thesis
      proof (cases "skip_ws cs")
        case Nil
        then show ?thesis by (simp add: Cons obj)
      next
        case (Cons d ds)
        have "parse_members n (d # ds) [] \<noteq> OutOfFuel"
          using sub M [of "d # ds" "[]"] by (simp add: Cons)
        then show ?thesis
          by (simp add: \<open>s = c # cs\<close> obj Cons)
      qed
    next
      case atom
      then show ?thesis
        by (simp add: Cons of_option_def split: option.splits prod.splits)
    qed
  qed
  moreover have "parse_elems (Suc n) s acc \<noteq> OutOfFuel" if n: "2 * length s + 2 \<le> Suc n"
  proof -
    have "parse_value n s \<noteq> OutOfFuel"
      using n by (intro V) simp
    moreover have "parse_elems n (skip_ws ds) (acc @ [v]) \<noteq> OutOfFuel"
      if "parse_value n s = Parsed (v, r)" "skip_ws r = d # ds" for v r d ds
    proof -
      have "length r < length s"
        using that(1) by (rule parse_value_consumes)
      moreover have "length ds < length r"
        using that(2) by (rule skip_ws_Cons_length)
      ultimately have "2 * length (skip_ws ds) + 2 \<le> n"
        using n skip_ws_length [of ds] by simp
      then show ?thesis by (rule E)
    qed
    ultimately show ?thesis
      by (auto split: parse_result.splits prod.splits list.splits)
  qed
  moreover have "parse_members (Suc n) s acc' \<noteq> OutOfFuel" if n: "2 * length s + 2 \<le> Suc n"
  proof (cases s)
    case Nil
    then show ?thesis by simp
  next
    case (Cons c cs)
    have v: "parse_value n (skip_ws ds) \<noteq> OutOfFuel"
      if "parse_chars cs = Some (k, r)" "skip_ws r = d # ds" for k r d ds
    proof -
      have "length r < length cs"
        using that(1) by (rule parse_chars_length)
      moreover have "length ds < length r"
        using that(2) by (rule skip_ws_Cons_length)
      ultimately have "2 * length (skip_ws ds) + 1 \<le> n"
        using n skip_ws_length [of ds] by (simp add: Cons)
      then show ?thesis by (rule V)
    qed
    have m: "parse_members n (skip_ws ds') (put_prop k v acc') \<noteq> OutOfFuel"
      if "parse_chars cs = Some (k, r)" "skip_ws r = d # ds"
        "parse_value n (skip_ws ds) = Parsed (v, r')" "skip_ws r' = d' # ds'"
      for k r d ds v r' d' ds'
    proof -
      have "length r < length cs"
        using that(1) by (rule parse_chars_length)
      moreover have "length ds < length r"
        using that(2) by (rule skip_ws_Cons_length)
      moreover have "length r' < length (skip_ws ds)"
        using that(3) by (rule parse_value_consumes)
      moreover have "length ds' < length r'"
        using that(4) by (rule skip_ws_Cons_length)
      ultimately have "2 * length (skip_ws ds') + 2 \<le> n"
        using n skip_ws_length [of ds] skip_ws_length [of ds'] by (simp add: Cons)
      then show ?thesis by (rule M)
    qed
    show ?thesis
      using v m
      by (auto simp add: Cons split: parse_result.splits prod.splits list.splits option.splits)
  qed
  ultimately show ?case by blast
qed

lemma JSON_parse_fuel:
  "parse_value (2 * length s + 2) (skip_ws s) \<noteq> OutOfFuel"
  using parse_fuel_enough [of "skip_ws s" "2 * length s + 2"] skip_ws_length [of s]
  by simp

text \<open>What the parser returns has each key once in every object.\<close>

lemma distinct_keys_JArr [simp]:
  "distinct_keys (JArr xs) \<longleftrightarrow> (\<forall>x \<in> set xs. distinct_keys x)"
  by (simp add: list_all_iff)

lemma distinct_keys_JObj [simp]:
  "distinct_keys (JObj kvs) \<longleftrightarrow>
     distinct (map fst kvs) \<and> (\<forall>kv \<in> set kvs. distinct_keys (snd kv))"
  by (auto simp add: list_all_iff)

declare distinct_keys.simps(5,6) [simp del]

lemma put_prop_keys: "fst ` set (put_prop k v acc) = insert k (fst ` set acc)"
  by (induction acc) auto

lemma put_prop_distinct: "distinct (map fst acc) \<Longrightarrow> distinct (map fst (put_prop k v acc))"
proof (induction acc)
  case Nil
  then show ?case by simp
next
  case (Cons p ps)
  then show ?case
    using put_prop_keys [of k v ps] by (auto simp add: image_iff)
qed

lemma put_prop_values:
  "kv \<in> set (put_prop k v acc) \<Longrightarrow> kv = (k, v) \<or> kv \<in> set acc"
  by (induction acc) (auto split: if_splits)

lemma parse_number_atom: "parse_number s = Some (v, r) \<Longrightarrow> distinct_keys v"
  by (cases s) (auto simp add: parse_number_def parse_unsigned_def
      split: if_splits option.splits prod.splits)

lemma parse_literal_atom: "parse_literal s = Some (v, r) \<Longrightarrow> distinct_keys v"
  by (auto simp add: parse_literal_def split: if_splits)

lemma parse_distinct_keys:
  "(parse_value n s = Parsed (v, r) \<longrightarrow> distinct_keys v) \<and>
   (parse_elems n s acc = Parsed (v, r) \<longrightarrow> (\<forall>x \<in> set acc. distinct_keys x) \<longrightarrow> distinct_keys v) \<and>
   (parse_members n s acc' = Parsed (v, r) \<longrightarrow> distinct (map fst acc') \<longrightarrow>
      (\<forall>kv \<in> set acc'. distinct_keys (snd kv)) \<longrightarrow> distinct_keys v)"
proof (induction n arbitrary: s v r acc acc')
  case 0
  then show ?case by simp
next
  case (Suc n)
  have V: "parse_value n s = Parsed (v, r) \<Longrightarrow> distinct_keys v" for s v r
    using Suc by blast
  have E: "parse_elems n s acc = Parsed (v, r) \<Longrightarrow> \<forall>x \<in> set acc. distinct_keys x \<Longrightarrow> distinct_keys v"
    for s v r acc
    using Suc by blast
  have M: "parse_members n s acc' = Parsed (v, r) \<Longrightarrow> distinct (map fst acc') \<Longrightarrow>
      \<forall>kv \<in> set acc'. distinct_keys (snd kv) \<Longrightarrow> distinct_keys v" for s v r acc'
    using Suc by blast
  have "distinct_keys v" if p: "parse_value (Suc n) s = Parsed (v, r)"
  proof (cases s)
    case Nil
    then show ?thesis using p by simp
  next
    case (Cons c cs)
    consider (arr) "c = 0x5B" | (obj) "c \<noteq> 0x5B" "c = 0x7B" | (atom) "c \<noteq> 0x5B" "c \<noteq> 0x7B"
      by blast
    then show ?thesis
    proof cases
      case arr
      then show ?thesis
        using p E [of _ "[]"] by (auto simp add: Cons split: list.splits if_splits)
    next
      case obj
      then show ?thesis
        using p M [of _ "[]"] by (auto simp add: Cons split: list.splits if_splits)
    next
      case atom
      then show ?thesis
        using p
        by (auto simp add: Cons of_option_def split: if_splits option.splits prod.splits
            dest: parse_number_atom parse_literal_atom)
    qed
  qed
  moreover have "distinct_keys v"
    if p: "parse_elems (Suc n) s acc = Parsed (v, r)" and a: "\<forall>x \<in> set acc. distinct_keys x"
  proof -
    obtain x r1 where x: "parse_value n s = Parsed (x, r1)"
      using p by (auto split: parse_result.splits)
    then have dx: "distinct_keys x" by (rule V)
    then have a': "\<forall>y \<in> set (acc @ [x]). distinct_keys y"
      using a by simp
    show ?thesis
      using p x a' E [of _ "acc @ [x]"]
      by (auto split: list.splits if_splits)
  qed
  moreover have "distinct_keys v"
    if p: "parse_members (Suc n) s acc' = Parsed (v, r)" and d: "distinct (map fst acc')"
      and a: "\<forall>kv \<in> set acc'. distinct_keys (snd kv)"
  proof (cases s)
    case Nil
    then show ?thesis using p by simp
  next
    case (Cons c cs)
    obtain k r1 where k: "parse_chars cs = Some (k, r1)"
      using p by (auto simp add: Cons split: if_splits option.splits)
    obtain d1 ds where ds: "skip_ws r1 = d1 # ds"
      using p k by (auto simp add: Cons split: if_splits list.splits)
    obtain x r2 where x: "parse_value n (skip_ws ds) = Parsed (x, r2)"
      using p k ds by (auto simp add: Cons split: if_splits parse_result.splits)
    have dx: "distinct_keys x" using x by (rule V)
    have d': "distinct (map fst (put_prop k x acc'))"
      using d by (rule put_prop_distinct)
    have a': "\<forall>kv \<in> set (put_prop k x acc'). distinct_keys (snd kv)"
      using a dx put_prop_values [of _ k x acc'] by fastforce
    show ?thesis
      using p k ds x d' a' M [of _ "put_prop k x acc'"]
      by (auto simp add: Cons split: if_splits list.splits)
  qed
  ultimately show ?case by blast
qed

lemma JSON_parse_distinct_keys: "JSON_parse s = Some v \<Longrightarrow> distinct_keys v"
  using parse_distinct_keys [THEN conjunct1, rule_format]
  by (auto simp add: JSON_parse_def split: parse_result.splits prod.splits if_splits)

text \<open>So every template the extractor hands to the endpoint is such a value.\<close>

lemma safeJSONParse_distinct_keys: "distinct_keys (safeJSONParse s)"
proof (cases "safeJSONParse_try s")
  case None
  then show ?thesis
    by (simp add: safeJSONParse_def fallback_template_def str_def ch_def)
next
  case (Some v)
  then have "distinct_keys v"
    by (auto simp add: safeJSONParse_try_def Let_def split: option.splits
        dest: JSON_parse_distinct_keys)
  then show ?thesis
    using Some by (simp add: safeJSONParse_def)
qed

section \<open>Properties of the rate limiters\<close>

lemma checkRateLimit_other:
  "ip' \<noteq> ip \<Longrightarrow> snd (checkRateLimit ip' now m) ip = m ip"
  by (simp add: checkRateLimit_def split: option.splits)

lemma checkRateLimit_in_window:
  assumes "m ip = Some e" and "now \<le> resetTime e"
  shows "checkRateLimit ip now m =
    (if count e \<ge> RATE_LIMIT_MAX_REQUESTS then (rate_deny, m)
     else (rate_allow, m(ip \<mapsto> e\<lparr>count := count e + 1\<rparr>)))"
  using assms by (simp add: checkRateLimit_def rate_allow_def rate_deny_def)

lemma checkRateLimit_fresh:
  assumes "m ip = None \<or> (\<exists>e. m ip = Some e \<and> resetTime e < now)"
  shows "checkRateLimit ip now m =
    (rate_allow, m(ip \<mapsto> \<lparr>count = 1, resetTime = now + RATE_LIMIT_WINDOW\<rparr>))"
  using assms by (auto simp add: checkRateLimit_def rate_allow_def)

lemma answers_for_Cons:
  "answers_for ip ((ip', t) # reqs) (r # rs) =
     (if ip' = ip then r # answers_for ip reqs rs else answers_for ip reqs rs)"
  by (simp add: answers_for_def)

lemma times_of_Cons:
  "times_of ip ((ip', t) # reqs) =
     (if ip' = ip then t # times_of ip reqs else times_of ip reqs)"
  by (simp add: times_of_def)

lemma fst_calls_Cons:
  "fst (checkRateLimit_calls ((ip, t) # reqs) m) =
     fst (checkRateLimit ip t m) # fst (checkRateLimit_calls reqs (snd (checkRateLimit ip t m)))"
  by (simp add: split_def Let_def)

declare checkRateLimit_calls.simps(2) [simp del]

lemma answers_in_window:
  assumes "m ip = Some e" and "\<forall>t \<in> set (times_of ip reqs). t \<le> resetTime e"
  shows "answers_for ip reqs (fst (checkRateLimit_calls reqs m)) =
     replicate (min (length (times_of ip reqs)) (RATE_LIMIT_MAX_REQUESTS - count e)) rate_allow @
     replicate (length (times_of ip reqs) - (RATE_LIMIT_MAX_REQUESTS - count e)) rate_deny"
  using assms
proof (induction reqs arbitrary: m e)
  case Nil
  then show ?case by (simp add: answers_for_def times_of_def)
next
  case (Cons q reqs)
  obtain ip' t where q: "q = (ip', t)" by (cases q)
  show ?case
  proof (cases "ip' = ip")
    case False
    have m': "snd (checkRateLimit ip' t m) ip = Some e"
      using False Cons.prems(1) by (simp add: checkRateLimit_other)
    have "\<forall>t \<in> set (times_of ip reqs). t \<le> resetTime e"
      using Cons.prems(2) False by (simp add: q times_of_Cons)
    from Cons.IH [of "snd (checkRateLimit ip' t m)" e, OF m' this] show ?thesis
      using False by (simp add: q fst_calls_Cons answers_for_Cons times_of_Cons)
  next
    case True
    have t: "t \<le> resetTime e" and rest: "\<forall>t \<in> set (times_of ip reqs). t \<le> resetTime e"
      using Cons.prems(2) True by (simp_all add: q times_of_Cons)
    show ?thesis
    proof (cases "count e \<ge> RATE_LIMIT_MAX_REQUESTS")
      case full: True
      have step: "checkRateLimit ip t m = (rate_deny, m)"
        using checkRateLimit_in_window [of m ip e t] Cons.prems(1) t full by simp
      from Cons.IH [of m e, OF Cons.prems(1) rest] show ?thesis
        using True full step by (simp add: q fst_calls_Cons answers_for_Cons times_of_Cons)
    next
      case room: False
      let ?e = "e\<lparr>count := count e + 1\<rparr>"
      have step: "checkRateLimit ip t m = (rate_allow, m(ip \<mapsto> ?e))"
        using checkRateLimit_in_window [of m ip e t] Cons.prems(1) t room by simp
      have m': "(m(ip \<mapsto> ?e)) ip = Some ?e" by simp
      have rest': "\<forall>t \<in> set (times_of ip reqs). t \<le> resetTime ?e"
        using rest by simp
      have k: "RATE_LIMIT_MAX_REQUESTS - count e = Suc (RATE_LIMIT_MAX_REQUESTS - count ?e)"
        using room by simp
      have ih: "answers_for ip reqs (fst (checkRateLimit_calls reqs (m(ip \<mapsto> ?e)))) =
          replicate (min (length (times_of ip reqs)) (RATE_LIMIT_MAX_REQUESTS - count ?e)) rate_allow @
          replicate (length (times_of ip reqs) - (RATE_LIMIT_MAX_REQUESTS - count ?e)) rate_deny"
        by (rule Cons.IH [of "m(ip \<mapsto> ?e)" ?e, OF m' rest'])
      have "answers_for ip (q # reqs) (fst (checkRateLimit_calls (q # reqs) m)) =
          rate_allow # answers_for ip reqs (fst (checkRateLimit_calls reqs (m(ip \<mapsto> ?e))))"
        using True step by (simp add: q fst_calls_Cons answers_for_Cons)
      also have "\<dots> = rate_allow #
          (replicate (min (length (times_of ip reqs)) (RATE_LIMIT_MAX_REQUESTS - count ?e)) rate_allow @
           replicate (length (times_of ip reqs) - (RATE_LIMIT_MAX_REQUESTS - count ?e)) rate_deny)"
        by (simp only: ih)
      also have "\<dots> =
          replicate (min (length (times_of ip (q # reqs))) (RATE_LIMIT_MAX_REQUESTS - count e)) rate_allow @
          replicate (length (times_of ip (q # reqs)) - (RATE_LIMIT_MAX_REQUESTS - count e)) rate_deny"
        using True by (simp add: q times_of_Cons k)
      finally show ?thesis .
    qed
  qed
qed

text \<open>
  C7. In the generation endpoint's limiter (at most 10 requests per window): when a
  client's call at time \<open>t1\<close> opens a window (no entry, or the stored window has
  passed), then among that client's calls up to the window's reset time, whatever other
  clients do in between, the first ten are allowed and every later one is denied with
  the limit-exceeded error; in particular the 10th is allowed and the 11th is denied.
  A call after the stored reset time is allowed and stores count 1 with a new window.
\<close>

theorem rate_limit_tenth_allowed_eleventh_denied:
  assumes fresh: "m ip = None \<or> (\<exists>e. m ip = Some e \<and> resetTime e < t1)"
    and within: "\<forall>t \<in> set (times_of ip reqs). t \<le> t1 + RATE_LIMIT_WINDOW"
    and later: "m' ip = Some e'" "resetTime e' < now"
  shows "(let as = answers_for ip ((ip, t1) # reqs)
                     (fst (checkRateLimit_calls ((ip, t1) # reqs) m))
          in length as = Suc (length (times_of ip reqs)) \<and>
             (\<forall>i < length as. as ! i = (if i < 10 then rate_allow else rate_deny))) \<and>
         checkRateLimit ip now m' =
           (rate_allow, m'(ip \<mapsto> \<lparr>count = 1, resetTime = now + RATE_LIMIT_WINDOW\<rparr>))"
proof -
  let ?e = "\<lparr>count = 1, resetTime = t1 + RATE_LIMIT_WINDOW\<rparr>"
  let ?m = "m(ip \<mapsto> ?e)"
  let ?n = "length (times_of ip reqs)"
  have first: "checkRateLimit ip t1 m = (rate_allow, ?m)"
    using fresh by (rule checkRateLimit_fresh)
  have "?m ip = Some ?e" by simp
  moreover have "\<forall>t \<in> set (times_of ip reqs). t \<le> resetTime ?e"
    using within by simp
  ultimately have rest: "answers_for ip reqs (fst (checkRateLimit_calls reqs ?m)) =
     replicate (min ?n (RATE_LIMIT_MAX_REQUESTS - count ?e)) rate_allow @
     replicate (?n - (RATE_LIMIT_MAX_REQUESTS - count ?e)) rate_deny"
    by (rule answers_in_window)
  have as: "answers_for ip ((ip, t1) # reqs) (fst (checkRateLimit_calls ((ip, t1) # reqs) m)) =
     replicate (Suc (min ?n 9)) rate_allow @ replicate (?n - 9) rate_deny"
    using first rest
    by (simp add: fst_calls_Cons answers_for_Cons RATE_LIMIT_MAX_REQUESTS_def)
  have nth: "\<And>i. i < Suc ?n \<Longrightarrow>
      (replicate (Suc (min ?n 9)) rate_allow @ replicate (?n - 9) rate_deny) ! i =
      (if i < 10 then rate_allow else rate_deny)"
    by (auto simp add: nth_append simp del: replicate_Suc)
  have len: "length (replicate (Suc (min ?n 9)) rate_allow @ replicate (?n - 9) rate_deny) = Suc ?n"
    by auto
  have "checkRateLimit ip now m' =
           (rate_allow, m'(ip \<mapsto> \<lparr>count = 1, resetTime = now + RATE_LIMIT_WINDOW\<rparr>))"
    using later by (intro checkRateLimit_fresh) auto
  then show ?thesis
    unfolding as Let_def using nth len by (simp del: replicate_Suc)
qed

theorem rate_limit_tenth_allowed_eleventh_denied_witness:
  "list_all (\<lambda>t. t \<le> 0 + RATE_LIMIT_WINDOW)
     (times_of (str ''10.0.0.1'')
        [(str ''10.0.0.1'', 5), (str ''10.0.0.2'', 6), (str ''10.0.0.1'', 7), (str ''10.0.0.1'', 100),
         (str ''10.0.0.1'', 200), (str ''10.0.0.2'', 300), (str ''10.0.0.1'', 400),
         (str ''10.0.0.1'', 500), (str ''10.0.0.1'', 600), (str ''10.0.0.1'', 59999),
         (str ''10.0.0.1'', 60000), (str ''10.0.0.1'', 60000)]) \<and>
   answers_for (str ''10.0.0.1'')
     ((str ''10.0.0.1'', 0) #
        [(str ''10.0.0.1'', 5), (str ''10.0.0.2'', 6), (str ''10.0.0.1'', 7), (str ''10.0.0.1'', 100),
         (str ''10.0.0.1'', 200), (str ''10.0.0.2'', 300), (str ''10.0.0.1'', 400),
         (str ''10.0.0.1'', 500), (str ''10.0.0.1'', 600), (str ''10.0.0.1'', 59999),
         (str ''10.0.0.1'', 60000), (str ''10.0.0.1'', 60000)])
     (fst (checkRateLimit_calls
        ((str ''10.0.0.1'', 0) #
           [(str ''10.0.0.1'', 5), (str ''10.0.0.2'', 6), (str ''10.0.0.1'', 7), (str ''10.0.0.1'', 100),
            (str ''10.0.0.1'', 200), (str ''10.0.0.2'', 300), (str ''10.0.0.1'', 400),
            (str ''10.0.0.1'', 500), (str ''10.0.0.1'', 600), (str ''10.0.0.1'', 59999),
            (str ''10.0.0.1'', 60000), (str ''10.0.0.1'', 60000)]) Map.empty)) =
     replicate 10 rate_allow @ [rate_deny] \<and>
   checkRateLimit (str ''10.0.0.1'') 60001
       [str ''10.0.0.1'' \<mapsto> \<lparr>count = 10, resetTime = 60000\<rparr>] =
     (rate_allow, [str ''10.0.0.1'' \<mapsto> \<lparr>count = 1, resetTime = 120001\<rparr>])"
  using rate_limit_tenth_allowed_eleventh_denied
    [of Map.empty "str ''10.0.0.1''" 0
        "[(str ''10.0.0.1'', 5), (str ''10.0.0.2'', 6), (str ''10.0.0.1'', 7), (str ''10.0.0.1'', 100),
          (str ''10.0.0.1'', 200), (str ''10.0.0.2'', 300), (str ''10.0.0.1'', 400),
          (str ''10.0.0.1'', 500), (str ''10.0.0.1'', 600), (str ''10.0.0.1'', 59999),
          (str ''10.0.0.1'', 60000), (str ''10.0.0.1'', 60000)]"
        "[str ''10.0.0.1'' \<mapsto> \<lparr>count = 10, resetTime = 60000\<rparr>]"
        "\<lparr>count = 10, resetTime = 60000\<rparr>" 60001]
  by (simp add: times_of_def answers_for_def fst_calls_Cons checkRateLimit_def
      RATE_LIMIT_WINDOW_def RATE_LIMIT_MAX_REQUESTS_def rate_allow_def rate_deny_def
      str_def ch_def eval_nat_numeral)

text \<open>
  C10. A denied call changes nothing: when a client's entry is unexpired and its count
  has reached the maximum, the check answers \<open>allowed = false\<close> and returns the map
  as it was, in the generation endpoint's limiter and in the save endpoint's.
\<close>

theorem denied_call_keeps_state:
  "(m ip = Some e \<and> \<not> now > resetTime e \<and> count e \<ge> RATE_LIMIT_MAX_REQUESTS \<longrightarrow>
      allowed (fst (checkRateLimit ip now m)) = False \<and>
      snd (checkRateLimit ip now m) = m) \<and>
   (ms ip = Some es \<and> \<not> now > resetTime es \<and> count es \<ge> SAVE_RATE_LIMIT_MAX_REQUESTS \<longrightarrow>
      allowed (fst (checkSaveRateLimit ip now ms)) = False \<and>
      snd (checkSaveRateLimit ip now ms) = ms)"
  by (simp add: checkRateLimit_def checkSaveRateLimit_def)

theorem denied_call_keeps_state_witness:
  "[str ''10.0.0.1'' \<mapsto> \<lparr>count = 10, resetTime = 60000\<rparr>] (str ''10.0.0.1'') =
     Some \<lparr>count = 10, resetTime = 60000\<rparr> \<and>
   \<not> 60000 > resetTime \<lparr>count = 10, resetTime = 60000\<rparr> \<and>
   count \<lparr>count = 10, resetTime = 60000\<rparr> \<ge> RATE_LIMIT_MAX_REQUESTS \<and>
   allowed (fst (checkRateLimit (str ''10.0.0.1'') 60000
      [str ''10.0.0.1'' \<mapsto> \<lparr>count = 10, resetTime = 60000\<rparr>])) = False \<and>
   snd (checkRateLimit (str ''10.0.0.1'') 60000
      [str ''10.0.0.1'' \<mapsto> \<lparr>count = 10, resetTime = 60000\<rparr>]) =
     [str ''10.0.0.1'' \<mapsto> \<lparr>count = 10, resetTime = 60000\<rparr>] \<and>
   count \<lparr>count = 7, resetTime = 60000\<rparr> \<ge> SAVE_RATE_LIMIT_MAX_REQUESTS \<and>
   allowed (fst (checkSaveRateLimit (str ''10.0.0.1'') 60000
      [str ''10.0.0.1'' \<mapsto> \<lparr>count = 7, resetTime = 60000\<rparr>])) = False \<and>
   snd (checkSaveRateLimit (str ''10.0.0.1'') 60000
      [str ''10.0.0.1'' \<mapsto> \<lparr>count = 7, resetTime = 60000\<rparr>]) =
     [str ''10.0.0.1'' \<mapsto> \<lparr>count = 7, resetTime = 60000\<rparr>]"
  using denied_call_keeps_state
    [of "[str ''10.0.0.1'' \<mapsto> \<lparr>count = 10, resetTime = 60000\<rparr>]" "str ''10.0.0.1''"
        "\<lparr>count = 10, resetTime = 60000\<rparr>" 60000
        "[str ''10.0.0.1'' \<mapsto> \<lparr>count = 7, resetTime = 60000\<rparr>]"
        "\<lparr>count = 7, resetTime = 60000\<rparr>"]
  by (simp add: RATE_LIMIT_MAX_REQUESTS_def SAVE_RATE_LIMIT_MAX_REQUESTS_def)

section \<open>Properties of the validators\<close>

text \<open>
  C8. Every validator of lib/validation.ts returns \<open>isValid\<close> true exactly when its
  \<open>errors\<close> are empty, whatever its warnings are.
\<close>

theorem isValid_iff_no_errors:
  "isValid (validatePrompt prompt) = (length (errors (validatePrompt prompt)) = 0) \<and>
   isValid (validateTemplateStructure template) =
     (length (errors (validateTemplateStructure template)) = 0) \<and>
   isValid (validateEnvironment env) = (length (errors (validateEnvironment env)) = 0) \<and>
   isValid (validateRateLimit ip requestCount windowMs maxRequests) =
     (length (errors (validateRateLimit ip requestCount windowMs maxRequests)) = 0) \<and>
   isValid (validateJSON engine_message jsonString) =
     (length (errors (validateJSON engine_message jsonString)) = 0)"
proof -
  have "isValid (validatePrompt prompt) = (length (errors (validatePrompt prompt)) = 0)"
    by (simp add: validatePrompt_def Let_def)
  moreover have "isValid (validateTemplateStructure template) =
     (length (errors (validateTemplateStructure template)) = 0)"
    by (simp add: validateTemplateStructure_def)
  moreover have "isValid (validateEnvironment env) = (length (errors (validateEnvironment env)) = 0)"
    by (simp add: validateEnvironment_def Let_def)
  moreover have "isValid (validateRateLimit ip requestCount windowMs maxRequests) =
     (length (errors (validateRateLimit ip requestCount windowMs maxRequests)) = 0)"
    by (simp add: validateRateLimit_def Let_def)
  moreover have "isValid (validateJSON engine_message jsonString) =
     (length (errors (validateJSON engine_message jsonString)) = 0)"
    by (simp add: validateJSON_def split: option.splits)
  ultimately show ?thesis by blast
qed

theorem isValid_iff_no_errors_witness:
  "isValid (validatePrompt (str ''daily planning board'')) = True \<and>
   length (errors (validatePrompt (str ''daily planning board''))) = 0 \<and>
   isValid (validateTemplateStructure JNull) = False \<and>
   length (errors (validateTemplateStructure JNull)) = 1 \<and>
   isValid (validateEnvironment Map.empty) = False \<and>
   length (errors (validateEnvironment Map.empty)) = 1 \<and>
   isValid (validateRateLimit (str ''unknown'') 9 60000 10) = True \<and>
   length (warnings (validateRateLimit (str ''unknown'') 9 60000 10)) = 2 \<and>
   isValid (validateJSON (\<lambda>s. s) (str ''[1,'')) = False \<and>
   length (errors (validateJSON (\<lambda>s. s) (str ''[1,''))) = 1"
proof -
  have "length (errors (validatePrompt (str ''daily planning board''))) = 0"
    by (simp add: prompt_eval string_eval)
  moreover have "length (errors (validateTemplateStructure JNull)) = 1"
    by (simp add: validateTemplateStructure_def)
  moreover have "length (errors (validateEnvironment Map.empty)) = 1"
    by (simp add: validateEnvironment_def env_missing_def)
  moreover have "length (errors (validateRateLimit (str ''unknown'') 9 60000 10)) = 0"
    by (simp add: validateRateLimit_def number_eval)
  moreover have "length (warnings (validateRateLimit (str ''unknown'') 9 60000 10)) = 2"
    by (simp add: validateRateLimit_def number_eval)
  moreover have "length (errors (validateJSON (\<lambda>s. s) (str ''[1,''))) = 1"
    by (simp add: validateJSON_def json_eval)
  ultimately show ?thesis
    using isValid_iff_no_errors [of "str ''daily planning board''" JNull Map.empty
        "str ''unknown''" 9 60000 10 "\<lambda>s. s" "str ''[1,''"]
    by simp
qed

lemma errors_push_matching_errors:
  "errors (push_matching_errors ps text st) =
     errors st @ map snd (filter (\<lambda>(test, message). test text) ps)"
  by (induction ps "text" st rule: push_matching_errors.induct) auto

lemma errors_push_matching_warnings [simp]:
  "errors (push_matching_warnings ps text st) = errors st"
  by (induction ps "text" st rule: push_matching_warnings.induct) auto

lemma errors_validatePrompt:
  "prompt \<noteq> [] \<Longrightarrow>
   errors (validatePrompt prompt) =
     (if length (trim prompt) < 3 then [str ''Prompt must be at least 3 characters long''] else []) @
     (if length (trim prompt) > 1000 then [str ''Prompt must be less than 1000 characters''] else []) @
     map snd (filter (\<lambda>(test, message). test (trim prompt)) dangerousPatterns)"
  by (simp add: validatePrompt_def Let_def errors_push_matching_errors)


text \<open>
  C2. The messages of the dangerous patterns among the errors of \<open>validatePrompt\<close>
  are, in the order of the denylist, exactly those of the patterns that match the
  trimmed prompt, one for each: every pattern is tested, whatever the others gave.
\<close>

theorem dangerous_patterns_all_collected:
  "filter (\<lambda>e. e \<in> snd ` set dangerousPatterns) (errors (validatePrompt prompt)) =
     map snd (filter (\<lambda>(test, message). test (trim prompt)) dangerousPatterns)"
proof (cases "prompt = []")
  case True
  have "filter (\<lambda>(test, message). test []) dangerousPatterns = []"
    by (simp add: dangerousPatterns_def rx_script_def rx_javascript_def rx_handler_def
        rx_eval_def rx_function_def rx_import_def rx_require_def seq_def plus_def star_def
        str_def)
  moreover have "str ''Prompt is required and must be a string'' \<notin> snd ` set dangerousPatterns"
    by (simp add: dangerousPatterns_def str_def ch_def)
  ultimately show ?thesis
    using True by (simp add: validatePrompt_def trim_def)
next
  case False
  let ?ms = "map snd (filter (\<lambda>(test, message). test (trim prompt)) dangerousPatterns)"
  have a: "str ''Prompt must be at least 3 characters long'' \<notin> snd ` set dangerousPatterns"
    by (simp add: dangerousPatterns_def str_def ch_def)
  have b: "str ''Prompt must be less than 1000 characters'' \<notin> snd ` set dangerousPatterns"
    by (simp add: dangerousPatterns_def str_def ch_def)
  have "set ?ms \<subseteq> snd ` set dangerousPatterns"
    by auto
  then have c: "filter (\<lambda>e. e \<in> snd ` set dangerousPatterns) ?ms = ?ms"
    by (simp add: filter_id_conv subset_iff)
  show ?thesis
    using False a b c by (simp add: errors_validatePrompt)
qed

theorem dangerous_patterns_all_collected_witness:
  "filter (\<lambda>e. e \<in> snd ` set dangerousPatterns)
     (errors (validatePrompt (str '' <SCRIPT>eval (x); require(y) ''))) =
   [str ''Script tags are not allowed'', str ''Eval functions are not allowed'',
    str ''Require statements are not allowed'']"
proof -
  have "map snd (filter (\<lambda>(test, message). test (trim (str '' <SCRIPT>eval (x); require(y) '')))
          dangerousPatterns) =
        [str ''Script tags are not allowed'', str ''Eval functions are not allowed'',
         str ''Require statements are not allowed'']"
    by (simp add: prompt_eval string_eval)
  then show ?thesis
    using dangerous_patterns_all_collected [of "str '' <SCRIPT>eval (x); require(y) ''"]
    by simp
qed

text \<open>
  C3, as the code has it. The empty prompt is rejected before any length is measured,
  with the message that a prompt is required. Every other prompt gets the message of the
  lower bound exactly when its trimmed length is below 3 and the message of the upper
  bound exactly when its trimmed length is above 1000.
\<close>

theorem length_errors_of_nonempty_prompt:
  "errors (validatePrompt []) = [str ''Prompt is required and must be a string''] \<and>
   (prompt \<noteq> [] \<longrightarrow>
      (str ''Prompt must be at least 3 characters long'' \<in> set (errors (validatePrompt prompt))
         \<longleftrightarrow> length (trim prompt) < 3) \<and>
      (str ''Prompt must be less than 1000 characters'' \<in> set (errors (validatePrompt prompt))
         \<longleftrightarrow> length (trim prompt) > 1000))"
proof -
  have a: "str ''Prompt must be at least 3 characters long'' \<notin> snd ` set dangerousPatterns"
    by (simp add: dangerousPatterns_def str_def ch_def)
  have b: "str ''Prompt must be less than 1000 characters'' \<notin> snd ` set dangerousPatterns"
    by (simp add: dangerousPatterns_def str_def ch_def)
  have ne: "str ''Prompt must be at least 3 characters long'' \<noteq>
            str ''Prompt must be less than 1000 characters''"
    by (simp add: str_def ch_def)
  have sub: "\<And>m. m \<in> set (map snd (filter (\<lambda>(test, message). test (trim prompt)) dangerousPatterns))
      \<Longrightarrow> m \<in> snd ` set dangerousPatterns"
    by auto
  have "errors (validatePrompt []) = [str ''Prompt is required and must be a string'']"
    by (simp add: validatePrompt_def)
  moreover have "prompt \<noteq> [] \<Longrightarrow>
      (str ''Prompt must be at least 3 characters long'' \<in> set (errors (validatePrompt prompt))
         \<longleftrightarrow> length (trim prompt) < 3)"
    using a ne sub by (auto simp add: errors_validatePrompt simp del: set_map set_filter)
  moreover have "prompt \<noteq> [] \<Longrightarrow>
      (str ''Prompt must be less than 1000 characters'' \<in> set (errors (validatePrompt prompt))
         \<longleftrightarrow> length (trim prompt) > 1000)"
    using b ne sub by (auto simp add: errors_validatePrompt simp del: set_map set_filter)
  ultimately show ?thesis by blast
qed

theorem empty_prompt_no_length_error:
  "length (trim []) < 3 \<and>
   errors (validatePrompt []) = [str ''Prompt is required and must be a string''] \<and>
   str ''Prompt must be at least 3 characters long'' \<notin> set (errors (validatePrompt [])) \<and>
   str ''Prompt must be less than 1000 characters'' \<notin> set (errors (validatePrompt []))"
  by (simp add: validatePrompt_def trim_def str_def ch_def)

theorem length_errors_of_nonempty_prompt_witness:
  "str ''  a  '' \<noteq> [] \<and> length (trim (str ''  a  '')) < 3 \<and>
   str ''Prompt must be at least 3 characters long'' \<in> set (errors (validatePrompt (str ''  a  ''))) \<and>
   str ''Prompt must be less than 1000 characters'' \<notin> set (errors (validatePrompt (str ''  a  '')))"
  using length_errors_of_nonempty_prompt [of "str ''  a  ''"]
  by (simp add: str_def ch_def trim_def is_space_def is_line_terminator_def)


text \<open>
  The endpoint's own \<open>validatePrompt\<close> measures the prompt untrimmed: a prompt of one
  letter between blanks passes it, and fails the validator of lib/validation.ts.
\<close>

lemma route_validatePrompt_untrimmed:
  "route_validatePrompt (str ''  a  '') = Valid \<and>
   isValid (validatePrompt (str ''  a  '')) = False"
  by (simp add: route_validatePrompt_def route_dangerousPatterns_def prompt_eval string_eval)
section \<open>Properties of the response extractor and of the endpoint\<close>

lemma lit_ci_suffix: "lit_ci p s = Some r \<Longrightarrow> suffix r s"
  by (induction p s rule: lit_ci.induct) (auto split: if_splits intro: suffix_ConsI)

lemma script_body_suffix: "script_body s = Some r \<Longrightarrow> suffix r s"
proof (induction s)
  case Nil
  then show ?case by simp
next
  case (Cons c cs)
  then show ?case
    by (auto split: if_splits option.splits intro: suffix_ConsI dest: lit_ci_suffix)
qed

lemma rx_script_element_suffix: "rx_script_element s = Some r \<Longrightarrow> suffix r s"
  by (auto simp: rx_script_element_def split: option.splits if_splits
      dest!: script_body_suffix lit_ci_suffix intro: suffix_order.trans)

lemma subseq_strip_scripts: "subseq (strip_scripts s) s"
proof (induction s rule: strip_scripts.induct)
  case 1
  then show ?case by simp
next
  case (2 c cs)
  show ?case
  proof (cases "rx_script_element (c # cs)")
    case None
    with 2 show ?thesis by simp
  next
    case (Some r)
    then have "subseq r (c # cs)"
      using rx_script_element_suffix suffix_imp_subseq by blast
    moreover have "subseq (strip_scripts r) r"
      using 2 Some by simp
    ultimately show ?thesis
      using Some by (simp del: strip_scripts.simps add: strip_scripts.simps(2) [of c cs])
  qed
qed

text \<open>A closing brace after an opening one: the two braces are a subsequence of the text.\<close>

lemma in_set_subseq: "x \<in> set xs \<longleftrightarrow> subseq [x] xs"
  by (induction xs) auto

lemma brace_pair_iff:
  "0x7D \<in> set (dropWhile (\<lambda>c. c \<noteq> 0x7B) s) \<longleftrightarrow> subseq [0x7B, 0x7D :: jschar] s"
proof (induction s)
  case Nil
  then show ?case by simp
next
  case (Cons c cs)
  show ?case
  proof (cases "c = 0x7B")
    case True
    then show ?thesis by (simp add: in_set_subseq)
  next
    case False
    then show ?thesis using Cons by (simp add: subseq_Cons')
  qed
qed

lemma match_braces_None_iff:
  "match_braces s = None \<longleftrightarrow> \<not> subseq [0x7B, 0x7D] s"
  using brace_pair_iff [of s] by (simp add: match_braces_def Let_def)

lemma validate_fallback:
  "validateTemplateStructure fallback_template =
     \<lparr>errors = [], warnings = [str ''No sections defined'', str ''No properties defined''],
      isValid = True\<rparr>"
  by (simp add: template_eval string_eval fallback_template_def)

lemma POST_respond_fallback:
  "safeJSONParse generatedText = fallback_template \<Longrightarrow>
   POST_respond generatedText =
     \<lparr>status = 200, body = JObj [(str ''ok'', JBool True), (str ''template'', fallback_template)]\<rparr>"
  by (simp add: POST_respond_def fallback_template_def str_def ch_def)

text \<open>
  C5. A text in which no closing brace follows an opening brace: the extractor returns
  the fallback template, and the template validator accepts the fallback with two
  warnings and no error.
\<close>

theorem no_braces_gives_fallback:
  assumes "\<not> subseq [0x7B, 0x7D] text"
  shows "safeJSONParse text =
           JObj [(str ''title'', JStr (str ''Template Generation Error'')),
                 (str ''sections'', JArr []),
                 (str ''properties'', JArr []),
                 (str ''notes'', JStr (str ''Failed to parse AI response. Please try again.''))] \<and>
         validateTemplateStructure (safeJSONParse text) =
           \<lparr>errors = [],
            warnings = [str ''No sections defined'', str ''No properties defined''],
            isValid = True\<rparr>"
proof -
  have "\<not> subseq [0x7B, 0x7D] (strip_scripts text)"
    using assms subseq_strip_scripts [of "text"] by (meson subseq_order.trans)
  then have "match_braces (strip_scripts text) = None"
    by (simp add: match_braces_None_iff)
  then have "safeJSONParse text = fallback_template"
    by (simp add: safeJSONParse_def safeJSONParse_try_def)
  then show ?thesis
    by (simp add: validate_fallback) (simp add: fallback_template_def)
qed

theorem no_braces_gives_fallback_witness:
  "\<not> subseq [0x7B, 0x7D] (str ''Sorry } I cannot help { with that'') \<and>
   safeJSONParse (str ''Sorry } I cannot help { with that'') =
     JObj [(str ''title'', JStr (str ''Template Generation Error'')),
           (str ''sections'', JArr []),
           (str ''properties'', JArr []),
           (str ''notes'', JStr (str ''Failed to parse AI response. Please try again.''))] \<and>
   validateTemplateStructure (safeJSONParse (str ''Sorry } I cannot help { with that'')) =
     \<lparr>errors = [],
      warnings = [str ''No sections defined'', str ''No properties defined''],
      isValid = True\<rparr>"
proof -
  have h: "\<not> subseq [0x7B, 0x7D] (str ''Sorry } I cannot help { with that'')"
    by (simp add: str_def ch_def subseq_Cons')
  show ?thesis
    by (rule conjI [OF h no_braces_gives_fallback [OF h]])
qed

text \<open>
  C4. When the extractor's \<open>try\<close> block fails on the generated text (no brace span, or a
  span that is not JSON), the endpoint answers 200 with \<open>ok: true\<close> and the fallback
  template: the fallback has a title and two arrays, which is all the endpoint checks.
\<close>

theorem unparsable_reply_answers_fallback:
  assumes "safeJSONParse_try generatedText = None"
  shows "POST_respond generatedText =
           \<lparr>status = 200,
            body = JObj [(str ''ok'', JBool True), (str ''template'', fallback_template)]\<rparr>"
  using assms by (simp add: POST_respond_fallback safeJSONParse_def)

theorem unparsable_reply_answers_fallback_witness:
  "safeJSONParse_try (str ''Sure! {title: Planner, sections: []}'') = None \<and>
   POST_respond (str ''Sure! {title: Planner, sections: []}'') =
     \<lparr>status = 200,
      body = JObj [(str ''ok'', JBool True), (str ''template'', fallback_template)]\<rparr>"
proof -
  have "safeJSONParse_try (str ''Sure! {title: Planner, sections: []}'') = None"
    by (simp add: extract_eval json_eval)
  with unparsable_reply_answers_fallback [OF this] show ?thesis by simp
qed

section \<open>An unrecognised property type\<close>

lemma errors_forEach_from_keeps:
  assumes "\<And>x i st. set (errors st) \<subseteq> set (errors (f x i st))"
  shows "set (errors st) \<subseteq> set (errors (forEach_from i f xs st))"
proof (induction xs arbitrary: i st)
  case Nil
  then show ?case by simp
next
  case (Cons x xs)
  have "set (errors st) \<subseteq> set (errors (f x i st))" by (rule assms)
  also have "\<dots> \<subseteq> set (errors (forEach_from (Suc i) f xs (f x i st)))" by (rule Cons.IH)
  finally show ?case by simp
qed

lemma errors_forEach_from_hits:
  assumes keeps: "\<And>x i st. set (errors st) \<subseteq> set (errors (f x i st))"
    and j: "j < length xs"
    and hit: "\<And>st. m \<in> set (errors (f (xs ! j) (i + j) st))"
  shows "m \<in> set (errors (forEach_from i f xs st))"
  using j hit
proof (induction xs arbitrary: i j st)
  case Nil
  then show ?case by simp
next
  case (Cons x xs)
  show ?case
  proof (cases j)
    case 0
    then have "m \<in> set (errors (f x i st))"
      using Cons.prems(2) [of st] by simp
    then show ?thesis
      using errors_forEach_from_keeps [of f "f x i st" "Suc i" xs, OF keeps] by auto
  next
    case (Suc k)
    then have "k < length xs" using Cons.prems(1) by simp
    moreover have "\<And>st. m \<in> set (errors (f (xs ! k) (Suc i + k) st))"
      using Cons.prems(2) Suc by simp
    ultimately show ?thesis
      using Cons.IH [of k "Suc i"] by simp
  qed
qed

lemma validate_property_keeps:
  "set (errors st) \<subseteq> set (errors (validate_property p i st))"
  by (auto simp add: validate_property_def Let_def)

lemma validate_notes_keeps:
  "set (errors st) \<subseteq> set (errors (validate_notes t st))"
  by (auto simp add: validate_notes_def Let_def)

lemma join_validPropertyTypes:
  "join (str '', '') validPropertyTypes =
     str ''text, select, multi-select, number, date, checkbox, url, email, phone, formula, relation, rollup, created_time, created_by, last_edited_time, last_edited_by, files, status''"
  by (simp add: validPropertyTypes_def str_def)

lemma validate_property_bad_type:
  assumes "get_prop p ''type'' = Some (JStr ty)" "ty \<noteq> []" "ty \<notin> set validPropertyTypes"
  shows "str ''Property '' @ show_nat (i + 1) @ str '': type must be one of: '' @
           join (str '', '') validPropertyTypes
         \<in> set (errors (validate_property p i st))"
proof -
  obtain kvs where p: "p = JObj kvs"
    using assms(1) by (cases p) simp_all
  show ?thesis
    using assms by (simp add: validate_property_def Let_def p)
qed

text \<open>
  C1, as the code has it. When the generated text parses to a template whose
  \<open>properties\<close> array holds, at position \<open>i\<close>, a property whose \<open>type\<close> is a non-empty
  string outside the eighteen recognised types, the template validator rejects the
  template with the error that lists the allowed types for property \<open>i + 1\<close>. The
  endpoint does not call that validator: it answers 200 with the template whenever the
  title is truthy and \<open>sections\<close> is an array (\<open>properties\<close> is one here), and 500 with
  "Invalid template generated. Please try again." otherwise.
\<close>

theorem invalid_property_type:
  assumes "safeJSONParse generatedText = template"
    and "get_prop template ''properties'' = Some (JArr ps)"
    and "i < length ps"
    and "get_prop (ps ! i) ''type'' = Some (JStr ty)"
    and "ty \<noteq> []"
    and "ty \<notin> set validPropertyTypes"
  shows "\<not> isValid (validateTemplateStructure template) \<and>
         str ''Property '' @ show_nat (i + 1) @
           str '': type must be one of: text, select, multi-select, number, date, checkbox, url, email, phone, formula, relation, rollup, created_time, created_by, last_edited_time, last_edited_by, files, status''
           \<in> set (errors (validateTemplateStructure template)) \<and>
         POST_respond generatedText =
           (if truthy (get_prop template ''title'') \<and> isArray (get_prop template ''sections'')
            then \<lparr>status = 200,
                  body = JObj [(str ''ok'', JBool True), (str ''template'', template)]\<rparr>
            else \<lparr>status = 500,
                  body = JObj [(str ''ok'', JBool False),
                               (str ''error'',
                                JStr (str ''Invalid template generated. Please try again.''))]\<rparr>)"
proof -
  let ?m = "str ''Property '' @ show_nat (i + 1) @ str '': type must be one of: '' @
              join (str '', '') validPropertyTypes"
  obtain kvs where t: "template = JObj kvs"
    using assms(2) by (cases template) simp_all
  have hit: "\<And>st. ?m \<in> set (errors (validate_property (ps ! i) (0 + i) st))"
    using validate_property_bad_type [OF assms(4-6)] by simp
  have "\<And>st. ?m \<in> set (errors (forEach validate_property ps st))"
    unfolding forEach_def
    by (rule errors_forEach_from_hits [of validate_property i ps _ 0, OF validate_property_keeps assms(3) hit])
  then have "\<And>st. ?m \<in> set (errors (validate_properties template st))"
    using assms(2) by (simp add: validate_properties_def Let_def)
  then have "\<And>st. ?m \<in> set (errors (validate_notes template (validate_properties template st)))"
    using validate_notes_keeps by blast
  then have m: "?m \<in> set (errors (validateTemplateStructure template))"
    by (simp add: validateTemplateStructure_def t)
  then have "errors (validateTemplateStructure template) \<noteq> []"
    by auto
  then have invalid: "\<not> isValid (validateTemplateStructure template)"
    by (simp add: validateTemplateStructure_def t)
  have "?m = str ''Property '' @ show_nat (i + 1) @
      str '': type must be one of: text, select, multi-select, number, date, checkbox, url, email, phone, formula, relation, rollup, created_time, created_by, last_edited_time, last_edited_by, files, status''"
    unfolding join_validPropertyTypes by (simp add: str_def)
  with m have m': "str ''Property '' @ show_nat (i + 1) @
      str '': type must be one of: text, select, multi-select, number, date, checkbox, url, email, phone, formula, relation, rollup, created_time, created_by, last_edited_time, last_edited_by, files, status''
      \<in> set (errors (validateTemplateStructure template))"
    by simp
  have "POST_respond generatedText =
           (if truthy (get_prop template ''title'') \<and> isArray (get_prop template ''sections'')
            then \<lparr>status = 200,
                  body = JObj [(str ''ok'', JBool True), (str ''template'', template)]\<rparr>
            else \<lparr>status = 500,
                  body = JObj [(str ''ok'', JBool False),
                               (str ''error'',
                                JStr (str ''Invalid template generated. Please try again.''))]\<rparr>)"
    using assms(1,2) by (simp add: POST_respond_def Let_def)
  with invalid m' show ?thesis by blast
qed

lemma parse_invalid_kind:
  "safeJSONParse (str ''{\"title\":\"T\",\"sections\":[],\"properties\":[{\"name\":\"n\",\"type\":\"invalid-kind\",\"description\":\"d\"}]}'') =
     JObj [(str ''title'', JStr (str ''T'')), (str ''sections'', JArr []),
           (str ''properties'',
            JArr [JObj [(str ''name'', JStr (str ''n'')), (str ''type'', JStr (str ''invalid-kind'')),
                        (str ''description'', JStr (str ''d''))]])]"
  by (simp add: extract_eval json_eval)

theorem invalid_kind_answered_200:
  "isValid (validateTemplateStructure (safeJSONParse (str ''{\"title\":\"T\",\"sections\":[],\"properties\":[{\"name\":\"n\",\"type\":\"invalid-kind\",\"description\":\"d\"}]}''))) = False \<and>
   errors (validateTemplateStructure (safeJSONParse (str ''{\"title\":\"T\",\"sections\":[],\"properties\":[{\"name\":\"n\",\"type\":\"invalid-kind\",\"description\":\"d\"}]}''))) =
     [str ''Property 1: type must be one of: text, select, multi-select, number, date, checkbox, url, email, phone, formula, relation, rollup, created_time, created_by, last_edited_time, last_edited_by, files, status''] \<and>
   POST_respond (str ''{\"title\":\"T\",\"sections\":[],\"properties\":[{\"name\":\"n\",\"type\":\"invalid-kind\",\"description\":\"d\"}]}'') =
     \<lparr>status = 200,
      body = JObj [(str ''ok'', JBool True),
                   (str ''template'',
                    JObj [(str ''title'', JStr (str ''T'')), (str ''sections'', JArr []),
                          (str ''properties'',
                           JArr [JObj [(str ''name'', JStr (str ''n'')),
                                       (str ''type'', JStr (str ''invalid-kind'')),
                                       (str ''description'', JStr (str ''d''))]])])]\<rparr>"
proof -
  have "POST_respond (str ''{\"title\":\"T\",\"sections\":[],\"properties\":[{\"name\":\"n\",\"type\":\"invalid-kind\",\"description\":\"d\"}]}'') =
     \<lparr>status = 200,
      body = JObj [(str ''ok'', JBool True),
                   (str ''template'',
                    JObj [(str ''title'', JStr (str ''T'')), (str ''sections'', JArr []),
                          (str ''properties'',
                           JArr [JObj [(str ''name'', JStr (str ''n'')),
                                       (str ''type'', JStr (str ''invalid-kind'')),
                                       (str ''description'', JStr (str ''d''))]])])]\<rparr>"
    unfolding POST_respond_def parse_invalid_kind by (simp add: str_def ch_def)
  moreover have "validateTemplateStructure
      (JObj [(str ''title'', JStr (str ''T'')), (str ''sections'', JArr []),
           (str ''properties'',
            JArr [JObj [(str ''name'', JStr (str ''n'')), (str ''type'', JStr (str ''invalid-kind'')),
                        (str ''description'', JStr (str ''d''))]])]) =
     \<lparr>errors = [str ''Property 1: type must be one of: text, select, multi-select, number, date, checkbox, url, email, phone, formula, relation, rollup, created_time, created_by, last_edited_time, last_edited_by, files, status''],
      warnings = [str ''No sections defined''], isValid = False\<rparr>"
    by (simp add: template_eval string_eval)
  ultimately show ?thesis
    unfolding parse_invalid_kind by simp
qed

theorem invalid_property_type_witness:
  "get_prop (JObj [(str ''title'', JStr (str ''T'')), (str ''sections'', JArr []),
           (str ''properties'',
            JArr [JObj [(str ''name'', JStr (str ''n'')), (str ''type'', JStr (str ''invalid-kind'')),
                        (str ''description'', JStr (str ''d''))]])]) ''properties'' =
     Some (JArr [JObj [(str ''name'', JStr (str ''n'')), (str ''type'', JStr (str ''invalid-kind'')),
                        (str ''description'', JStr (str ''d''))]]) \<and>
   str ''invalid-kind'' \<notin> set validPropertyTypes \<and>
   str ''Property '' @ show_nat (0 + 1) @
     str '': type must be one of: text, select, multi-select, number, date, checkbox, url, email, phone, formula, relation, rollup, created_time, created_by, last_edited_time, last_edited_by, files, status''
     \<in> set (errors (validateTemplateStructure
         (JObj [(str ''title'', JStr (str ''T'')), (str ''sections'', JArr []),
           (str ''properties'',
            JArr [JObj [(str ''name'', JStr (str ''n'')), (str ''type'', JStr (str ''invalid-kind'')),
                        (str ''description'', JStr (str ''d''))]])]))) \<and>
   status (POST_respond (str ''{\"title\":\"T\",\"sections\":[],\"properties\":[{\"name\":\"n\",\"type\":\"invalid-kind\",\"description\":\"d\"}]}'')) = 200"
proof -
  let ?p = "JObj [(str ''name'', JStr (str ''n'')), (str ''type'', JStr (str ''invalid-kind'')),
                        (str ''description'', JStr (str ''d''))]"
  let ?t = "JObj [(str ''title'', JStr (str ''T'')), (str ''sections'', JArr []),
           (str ''properties'', JArr [?p])]"
  have h2: "get_prop ?t ''properties'' = Some (JArr [?p])"
    by (simp add: str_def ch_def)
  have h3: "0 < length [?p]" by simp
  have h4: "get_prop ([?p] ! 0) ''type'' = Some (JStr (str ''invalid-kind''))"
    by (simp add: str_def ch_def)
  have h5: "str ''invalid-kind'' \<noteq> []" by (simp add: str_def)
  have h6: "str ''invalid-kind'' \<notin> set validPropertyTypes"
    by (simp add: validPropertyTypes_def str_def ch_def)
  have t: "truthy (get_prop ?t ''title'') \<and> isArray (get_prop ?t ''sections'')"
    by (simp add: str_def ch_def)
  from invalid_property_type [OF parse_invalid_kind h2 h3 h4 h5 h6] t h2 h6
  show ?thesis by simp
qed

section \<open>A JSON object inside prose\<close>

lemma dropWhile_append_all:
  "\<forall>x \<in> set xs. P x \<Longrightarrow> dropWhile P (xs @ ys) = dropWhile P ys"
  by (induction xs) auto

lemma match_braces_embedded:
  assumes "0x7B \<notin> set pre" and "0x7D \<notin> set post"
  shows "match_braces (pre @ (0x7B # mid @ [0x7D]) @ post) = Some (0x7B # mid @ [0x7D])"
proof -
  let ?obj = "0x7B # mid @ [0x7D :: jschar]"
  have "\<forall>x \<in> set pre. x \<noteq> 0x7B"
    using assms(1) by auto
  then have "dropWhile (\<lambda>c. c \<noteq> 0x7B) (pre @ ?obj @ post) = dropWhile (\<lambda>c. c \<noteq> 0x7B) (?obj @ post)"
    by (rule dropWhile_append_all)
  then have a: "dropWhile (\<lambda>c. c \<noteq> 0x7B) (pre @ ?obj @ post) = ?obj @ post"
    by simp
  have "\<forall>x \<in> set (rev post). x \<noteq> 0x7D"
    using assms(2) by auto
  then have "dropWhile (\<lambda>c. c \<noteq> 0x7D) (rev post @ rev ?obj) = dropWhile (\<lambda>c. c \<noteq> 0x7D) (rev ?obj)"
    by (rule dropWhile_append_all)
  then have b: "rev (dropWhile (\<lambda>c. c \<noteq> 0x7D) (rev (?obj @ post))) = ?obj"
    by simp
  show ?thesis
    unfolding match_braces_def Let_def a b by simp
qed

text \<open>A text in which \<open><script\<close> does not occur, in any case, is left as it is.\<close>

lemma lit_ci_script_element:
  "lit_ci (str ''<script'') s = None \<Longrightarrow> rx_script_element s = None"
  by (simp add: rx_script_element_def)

lemma strip_scripts_no_script:
  "\<not> regex_test rx_script s \<Longrightarrow> strip_scripts s = s"
proof (induction s)
  case Nil
  then show ?case by simp
next
  case (Cons c cs)
  then have "rx_script_element (c # cs) = None"
    by (simp add: rx_script_def lit_ci_script_element)
  then show ?case using Cons by simp
qed

text \<open>
  C6, as the code has it. The script elements are cut out of the text first, and the
  braces are looked for in what is left. When what is left is made of prose without an
  opening brace, a JSON text that starts and ends with a brace, and prose without a
  closing brace, the span the extractor takes is the JSON text, and what the extractor
  returns is what \<open>JSON.parse\<close> makes of it. A text in which \<open><script\<close> does not occur
  is left whole (\<open>strip_scripts_no_script\<close>), so this holds of every such text that is
  of this shape itself.
\<close>

theorem embedded_object_extracted:
  assumes "strip_scripts text = pre @ (0x7B # mid @ [0x7D]) @ post"
    and "0x7B \<notin> set pre" and "0x7D \<notin> set post"
    and "JSON_parse (0x7B # mid @ [0x7D]) = Some parsed"
  shows "match_braces (strip_scripts text) = Some (0x7B # mid @ [0x7D]) \<and>
         safeJSONParse text = parsed"
  using assms(4) match_braces_embedded [OF assms(2,3), of mid]
  by (simp only: safeJSONParse_def safeJSONParse_try_def Let_def assms(1) option.case simp_thms)

theorem embedded_object_extracted_witness:
  "0x7B \<notin> set (str ''Here you go: '') \<and> 0x7B \<notin> set (str '' Here: '') \<and>
   0x7D \<notin> set (str '' thanks'') \<and>
   JSON_parse (0x7B # str ''\"title\":\"T\",\"sections\":[],\"properties\":[]'' @ [0x7D]) =
     Some (JObj [(str ''title'', JStr (str ''T'')), (str ''sections'', JArr []),
                 (str ''properties'', JArr [])]) \<and>
   strip_scripts (str ''Here you go: {\"title\":\"T\",\"sections\":[],\"properties\":[]} thanks'') =
     str ''Here you go: {\"title\":\"T\",\"sections\":[],\"properties\":[]} thanks'' \<and>
   safeJSONParse (str ''Here you go: {\"title\":\"T\",\"sections\":[],\"properties\":[]} thanks'') =
     JObj [(str ''title'', JStr (str ''T'')), (str ''sections'', JArr []),
           (str ''properties'', JArr [])] \<and>
   strip_scripts (str ''<script>{x}</script> Here: {\"title\":\"T\",\"sections\":[],\"properties\":[]} thanks'') =
     str '' Here: {\"title\":\"T\",\"sections\":[],\"properties\":[]} thanks'' \<and>
   safeJSONParse (str ''<script>{x}</script> Here: {\"title\":\"T\",\"sections\":[],\"properties\":[]} thanks'') =
     JObj [(str ''title'', JStr (str ''T'')), (str ''sections'', JArr []),
           (str ''properties'', JArr [])]"
proof -
  let ?pre = "str ''Here you go: ''"
  let ?pre' = "str '' Here: ''"
  let ?mid = "str ''\"title\":\"T\",\"sections\":[],\"properties\":[]''"
  let ?post = "str '' thanks''"
  let ?plain = "str ''Here you go: {\"title\":\"T\",\"sections\":[],\"properties\":[]} thanks''"
  let ?left = "str '' Here: {\"title\":\"T\",\"sections\":[],\"properties\":[]} thanks''"
  let ?tagged = "str ''<script>{x}</script> Here: {\"title\":\"T\",\"sections\":[],\"properties\":[]} thanks''"
  have h1: "0x7B \<notin> set ?pre" by (simp add: str_def ch_def)
  have h1': "0x7B \<notin> set ?pre'" by (simp add: str_def ch_def)
  have h2: "0x7D \<notin> set ?post" by (simp add: str_def ch_def)
  have h3: "JSON_parse (0x7B # ?mid @ [0x7D]) =
     Some (JObj [(str ''title'', JStr (str ''T'')), (str ''sections'', JArr []),
                 (str ''properties'', JArr [])])"
    by (simp add: json_eval)
  have "\<not> regex_test rx_script ?plain"
    by (simp add: rx_script_def str_def ch_def ci_eq_def ascii_lower_def)
  then have s1: "strip_scripts ?plain = ?plain"
    by (rule strip_scripts_no_script)
  have p1: "?plain = ?pre @ (0x7B # ?mid @ [0x7D]) @ ?post"
    by (simp add: str_def ch_def)
  have s2: "strip_scripts ?tagged = ?left"
    by (simp add: extract_eval str_def ch_def)
  have p2: "?left = ?pre' @ (0x7B # ?mid @ [0x7D]) @ ?post"
    by (simp add: str_def ch_def)
  have a: "safeJSONParse ?plain =
      JObj [(str ''title'', JStr (str ''T'')), (str ''sections'', JArr []),
            (str ''properties'', JArr [])]"
    using embedded_object_extracted [OF trans [OF s1 p1] h1 h2 h3]
    by blast
  have b: "safeJSONParse ?tagged =
      JObj [(str ''title'', JStr (str ''T'')), (str ''sections'', JArr []),
            (str ''properties'', JArr [])]"
    using embedded_object_extracted [OF trans [OF s2 p2] h1' h2 h3]
    by blast
  from h1 h1' h2 h3 s1 a s2 b show ?thesis
    by blast
qed

theorem script_wrapped_object_lost:
  "0x7B \<notin> set (str ''<script>'') \<and> 0x7D \<notin> set (str ''<script>'') \<and>
   0x7B \<notin> set (str ''</script>'') \<and> 0x7D \<notin> set (str ''</script>'') \<and>
   JSON_parse (str ''{\"title\":\"T\",\"sections\":[],\"properties\":[]}'') =
     Some (JObj [(str ''title'', JStr (str ''T'')), (str ''sections'', JArr []),
                 (str ''properties'', JArr [])]) \<and>
   safeJSONParse (str ''<script>'' @ str ''{\"title\":\"T\",\"sections\":[],\"properties\":[]}'' @
                  str ''</script>'') =
     JObj [(str ''title'', JStr (str ''Template Generation Error'')), (str ''sections'', JArr []),
           (str ''properties'', JArr []),
           (str ''notes'', JStr (str ''Failed to parse AI response. Please try again.''))]"
proof -
  have "JSON_parse (str ''{\"title\":\"T\",\"sections\":[],\"properties\":[]}'') =
     Some (JObj [(str ''title'', JStr (str ''T'')), (str ''sections'', JArr []),
                 (str ''properties'', JArr [])])"
    by (simp add: json_eval)
  moreover have "safeJSONParse (str ''<script>'' @ str ''{\"title\":\"T\",\"sections\":[],\"properties\":[]}'' @
                  str ''</script>'') = fallback_template"
    by (simp add: extract_eval str_def ch_def)
  ultimately show ?thesis
    by (simp add: fallback_template_def) (simp add: str_def ch_def)
qed

section \<open>Writing a value and reading it again\<close>

subsection \<open>Digits\<close>

lemma digit_char_cases:
  "d < 10 \<Longrightarrow> d = 0 \<or> d = 1 \<or> d = 2 \<or> d = 3 \<or> d = 4 \<or> d = 5 \<or> d = 6 \<or> d = 7 \<or> d = 8 \<or> d = (9::nat)"
  by arith

lemma is_digit_digit_char: "d < 10 \<Longrightarrow> is_digit (digit_char d)"
  using digit_char_cases [of d] by (auto simp add: is_digit_def digit_char_def)

lemma digit_val_digit_char: "d < 10 \<Longrightarrow> digit_val (digit_char d) = d"
  using digit_char_cases [of d] by (auto simp add: digit_val_def digit_char_def)

lemma digit_char_zero_iff: "d < 10 \<Longrightarrow> digit_char d = 0x30 \<longleftrightarrow> d = 0"
  using digit_char_cases [of d] by (auto simp add: digit_char_def)

lemma show_nat_not_Nil: "show_nat n \<noteq> []"
  by (subst show_nat.simps) simp

lemma show_nat_digits: "c \<in> set (show_nat n) \<Longrightarrow> is_digit c"
proof (induction n arbitrary: c rule: show_nat.induct)
  case (1 n)
  show ?case
  proof (cases "n < 10")
    case True
    then show ?thesis
      using "1.prems" by (subst (asm) show_nat.simps) (simp add: is_digit_digit_char)
  next
    case False
    then show ?thesis
      using "1.prems" "1.IH" by (subst (asm) show_nat.simps) (auto simp add: is_digit_digit_char)
  qed
qed

lemma digits_val_snoc: "digits_val (ds @ [d]) = 10 * digits_val ds + digit_val d"
  by (simp add: digits_val_def)

lemma digits_val_show_nat: "digits_val (show_nat n) = n"
proof (induction n rule: show_nat.induct)
  case (1 n)
  show ?case
  proof (cases "n < 10")
    case True
    then show ?thesis
      by (subst show_nat.simps) (simp add: digits_val_def digit_val_digit_char)
  next
    case False
    then show ?thesis
      using "1.IH" by (subst show_nat.simps) (simp add: digits_val_snoc digit_val_digit_char)
  qed
qed

lemma hd_show_nat_zero: "hd (show_nat n) = 0x30 \<longleftrightarrow> n = 0"
proof (induction n rule: show_nat.induct)
  case (1 n)
  show ?case
  proof (cases "n < 10")
    case True
    then show ?thesis
      by (subst show_nat.simps) (simp add: digit_char_zero_iff)
  next
    case False
    then have "hd (show_nat n) = hd (show_nat (n div 10))"
      by (subst show_nat.simps) (simp add: show_nat_not_Nil)
    then show ?thesis
      using "1.IH" False by simp
  qed
qed

lemma show_nat_zero: "show_nat 0 = [0x30]"
  by (simp add: show_nat.simps digit_char_def)

lemma takeWhile_digits_show_nat:
  assumes "r = [] \<or> \<not> is_digit (hd r)"
  shows "takeWhile is_digit (show_nat n @ r) = show_nat n"
    and "dropWhile is_digit (show_nat n @ r) = r"
proof -
  have all: "\<forall>c \<in> set (show_nat n). is_digit c"
    using show_nat_digits by blast
  have r: "takeWhile is_digit r = []" "dropWhile is_digit r = r"
    using assms by (cases r; simp)+
  show "takeWhile is_digit (show_nat n @ r) = show_nat n"
    using all r by (simp add: takeWhile_append2)
  show "dropWhile is_digit (show_nat n @ r) = r"
    using all r by (simp add: dropWhile_append2)
qed

subsection \<open>Escapes\<close>

lemma unat_of_nat_small: "n < 65536 \<Longrightarrow> unat (of_nat n :: 16 word) = n"
  by (simp add: unat_of_nat)

lemma hex_val_hex_digit: "d < 16 \<Longrightarrow> hex_val (hex_digit d) = Some d"
proof (cases "d < 10")
  case True
  then have "unat (of_nat (48 + d) :: 16 word) = 48 + d"
    by (intro unat_of_nat_small) simp
  then show ?thesis
    using True by (simp add: hex_val_def hex_digit_def word_le_nat_alt)
next
  case False
  assume "d < 16"
  then have "unat (of_nat (87 + d) :: 16 word) = 87 + d"
    by (intro unat_of_nat_small) simp
  then show ?thesis
    using False \<open>d < 16\<close> by (simp add: hex_val_def hex_digit_def word_le_nat_alt)
qed

lemma nibbles:
  fixes n :: nat
  shows "4096 * (n div 4096) + 256 * (n div 256 mod 16) + 16 * (n div 16 mod 16) + n mod 16 = n"
proof -
  define a b q r2 r1 r0
    where "a = n div 16" and "b = n div 256" and "q = n div 4096"
      and "r2 = n div 256 mod 16" and "r1 = n div 16 mod 16" and "r0 = n mod 16"
  have "n div 256 = n div 16 div 16" "n div 4096 = n div 256 div 16"
    by (simp_all add: div_mult2_eq)
  then have "n = 16 * a + r0" "a = 16 * b + r1" "b = 16 * q + r2"
    unfolding a_def b_def q_def r2_def r1_def r0_def by simp_all
  then have "4096 * q + 256 * r2 + 16 * r1 + r0 = n"
    by simp
  then show ?thesis
    unfolding q_def r2_def r1_def r0_def .
qed

lemma hex4_unicode_digits:
  "hex4 (hex_digit (unat c div 4096)) (hex_digit (unat c div 256 mod 16))
        (hex_digit (unat c div 16 mod 16)) (hex_digit (unat c mod 16)) = Some c"
proof -
  have "unat c < 65536"
    using unsigned_less [of c, where ?'a = nat] by simp
  then have "unat c div 4096 < 16"
    by simp
  moreover have "(of_nat (4096 * (unat c div 4096) + 256 * (unat c div 256 mod 16) +
      16 * (unat c div 16 mod 16) + unat c mod 16) :: 16 word) = c"
    unfolding nibbles by simp
  ultimately show ?thesis
    by (simp add: hex4_def hex_val_hex_digit del: of_nat_unat of_nat_add of_nat_mult)
qed

lemma parse_chars_raw:
  "\<lbrakk>c \<noteq> 0x22; c \<noteq> 0x5C; \<not> c < 0x20\<rbrakk> \<Longrightarrow>
   parse_chars (c # r) =
     (case parse_chars r of None \<Rightarrow> None | Some (s, rest) \<Rightarrow> Some (c # s, rest))"
  by simp

lemma parse_chars_unicode_escape:
  "parse_chars (unicode_escape c @ r) =
     (case parse_chars r of None \<Rightarrow> None | Some (s, rest) \<Rightarrow> Some (c # s, rest))"
  by (simp add: unicode_escape_def hex4_unicode_digits)

lemma parse_chars_escape_char:
  "parse_chars (escape_char c @ r) =
     (case parse_chars r of None \<Rightarrow> None | Some (s, rest) \<Rightarrow> Some (c # s, rest))"
proof -
  consider "c = 0x08" | "c = 0x09" | "c = 0x0A" | "c = 0x0C" | "c = 0x0D" | "c = 0x22" | "c = 0x5C"
    | "c \<notin> {0x08, 0x09, 0x0A, 0x0C, 0x0D, 0x22, 0x5C}"
        "c < 0x20 \<or> is_high_surrogate c \<or> is_low_surrogate c"
    | "c \<notin> {0x08, 0x09, 0x0A, 0x0C, 0x0D, 0x22, 0x5C}"
        "\<not> (c < 0x20 \<or> is_high_surrogate c \<or> is_low_surrogate c)"
    by blast
  then show ?thesis
  proof cases
    case 8
    then show ?thesis
      by (simp add: escape_char_def parse_chars_unicode_escape del: parse_chars.simps)
  next
    case 9
    then show ?thesis
      by (simp add: escape_char_def)
  qed (simp_all add: escape_char_def simple_escape_def split: option.splits)
qed

lemma surrogate_is_raw:
  "is_high_surrogate c \<or> is_low_surrogate c \<Longrightarrow> c \<noteq> 0x22 \<and> c \<noteq> 0x5C \<and> \<not> c < 0x20"
  by (auto simp add: is_high_surrogate_def is_low_surrogate_def word_le_nat_alt word_less_nat_alt)

lemma parse_chars_quote_chars:
  "parse_chars (quote_chars s @ 0x22 # rest) = Some (s, rest)"
proof (induction s rule: quote_chars.induct)
  case 1
  then show ?case by simp
next
  case (2 c)
  then show ?case
    by (simp add: parse_chars_escape_char del: parse_chars.simps)
       simp
next
  case (3 c d cs)
  show ?case
  proof (cases "is_high_surrogate c \<and> is_low_surrogate d")
    case True
    then have "c \<noteq> 0x22 \<and> c \<noteq> 0x5C \<and> \<not> c < 0x20" "d \<noteq> 0x22 \<and> d \<noteq> 0x5C \<and> \<not> d < 0x20"
      using surrogate_is_raw by blast+
    moreover have "parse_chars (quote_chars cs @ 0x22 # rest) = Some (cs, rest)"
      using True 3(1) by simp
    ultimately show ?thesis
      using True by (simp add: parse_chars_raw del: parse_chars.simps)
  next
    case False
    then have "quote_chars (c # d # cs) = escape_char c @ quote_chars (d # cs)"
      by auto
    moreover have "parse_chars (quote_chars (d # cs) @ 0x22 # rest) = Some (d # cs, rest)"
      using False 3(2) by blast
    ultimately show ?thesis
      by (simp add: parse_chars_escape_char del: parse_chars.simps quote_chars.simps)
  qed
qed

lemma parse_chars_quote: "parse_chars (tl (quote s) @ rest) = Some (s, rest)"
  by (simp add: quote_def parse_chars_quote_chars)

subsection \<open>Numbers\<close>

lemma closes_not_digit: "closes r \<Longrightarrow> r = [] \<or> \<not> is_digit (hd r)"
  by (auto simp add: closes_def is_digit_def split: list.splits)

lemma parse_exp_digits_show_nat:
  "closes r \<Longrightarrow> parse_exp_digits neg (show_nat n @ r) =
     Some ((if neg then - int n else int n), r)"
  using takeWhile_digits_show_nat [OF closes_not_digit, of r n]
  by (simp add: parse_exp_digits_def show_nat_not_Nil digits_val_show_nat)

lemma hd_show_nat_not_sign: "hd (show_nat n) \<noteq> 0x2D \<and> hd (show_nat n) \<noteq> 0x2B"
proof -
  have "hd (show_nat n) \<in> set (show_nat n)"
    by (simp add: show_nat_not_Nil)
  then have "is_digit (hd (show_nat n))"
    by (rule show_nat_digits)
  then show ?thesis
    by (auto simp add: is_digit_def)
qed

lemma parse_exp_part_text:
  assumes "closes r"
  shows "parse_exp_part ((if e = 0 then [] else 0x65 # show_int e) @ r) = Some (e, r)"
proof (cases "e = 0")
  case True
  then show ?thesis
    using assms by (auto simp add: parse_exp_part_def closes_def split: list.splits)
next
  case False
  show ?thesis
  proof (cases "e < 0")
    case True
    then show ?thesis
      using False assms
      by (simp add: parse_exp_part_def show_int_def ch_def parse_exp_digits_show_nat)
  next
    case pos: False
    obtain d ds where ds: "show_nat (nat e) = d # ds"
      using show_nat_not_Nil [of "nat e"] by (cases "show_nat (nat e)") auto
    have "d \<noteq> 0x2D \<and> d \<noteq> 0x2B"
      using hd_show_nat_not_sign [of "nat e"] ds by simp
    moreover have "parse_exp_digits False (d # ds @ r) = Some (e, r)"
      using parse_exp_digits_show_nat [OF assms, of False "nat e"] pos ds by simp
    ultimately show ?thesis
      using False pos by (simp add: parse_exp_part_def show_int_def ds)
  qed
qed

lemma parse_int_part_show_nat:
  assumes "r = [] \<or> \<not> is_digit (hd r)"
  shows "parse_int_part (show_nat n @ r) = Some (show_nat n, r)"
proof (cases "n = 0")
  case True
  then show ?thesis
    by (simp add: parse_int_part_def show_nat_zero)
next
  case False
  obtain d ds where ds: "show_nat n = d # ds"
    using show_nat_not_Nil [of n] by (cases "show_nat n") auto
  have "d \<noteq> 0x30"
    using hd_show_nat_zero [of n] False ds by simp
  moreover have "is_digit d"
    using show_nat_digits [of d n] ds by simp
  moreover have "takeWhile is_digit (d # ds @ r) = d # ds" "dropWhile is_digit (d # ds @ r) = r"
    using takeWhile_digits_show_nat [OF assms, of n] ds by simp_all
  ultimately show ?thesis
    by (simp add: parse_int_part_def ds)
qed

lemma exp_text_not_digit:
  "closes r \<Longrightarrow>
   (if e = 0 then [] else 0x65 # show_int e) @ r = [] \<or>
   \<not> is_digit (hd ((if e = 0 then [] else 0x65 # show_int e) @ r))"
  by (auto simp add: closes_def is_digit_def split: list.splits)

lemma parse_frac_part_none:
  "closes r \<Longrightarrow>
   parse_frac_part ((if e = 0 then [] else 0x65 # show_int e) @ r) =
     Some ([], (if e = 0 then [] else 0x65 # show_int e) @ r)"
  by (auto simp add: parse_frac_part_def closes_def split: list.splits)

lemma parse_unsigned_text:
  assumes "closes r"
  shows "parse_unsigned neg (show_nat n @ (if e = 0 then [] else 0x65 # show_int e) @ r) =
     Some (JNum (if neg then - int n else int n) e, r)"
proof -
  let ?t = "(if e = 0 then [] else 0x65 # show_int e) @ r"
  have "parse_int_part (show_nat n @ ?t) = Some (show_nat n, ?t)"
    using exp_text_not_digit [OF assms] by (rule parse_int_part_show_nat)
  moreover have "parse_frac_part ?t = Some ([], ?t)"
    using assms by (rule parse_frac_part_none)
  moreover have "parse_exp_part ?t = Some (e, r)"
    using assms by (rule parse_exp_part_text)
  ultimately show ?thesis
    by (simp add: parse_unsigned_def digits_val_show_nat)
qed

lemma parse_number_text:
  assumes "closes r"
  shows "parse_number (number_text m e @ r) = Some (JNum m e, r)"
proof (cases "m < 0")
  case True
  then show ?thesis
    using parse_unsigned_text [OF assms, of True "nat (- m)" e]
    by (simp add: parse_number_def number_text_def show_int_def ch_def)
next
  case False
  obtain d ds where ds: "show_nat (nat m) = d # ds"
    using show_nat_not_Nil [of "nat m"] by (cases "show_nat (nat m)") auto
  have "d \<noteq> 0x2D"
    using hd_show_nat_not_sign [of "nat m"] ds by simp
  then show ?thesis
    using False parse_unsigned_text [OF assms, of False "nat m" e] ds
    by (simp add: parse_number_def number_text_def show_int_def)
qed

lemma number_text_first:
  "\<exists>c cs. number_text m e = c # cs \<and> (c = 0x2D \<or> is_digit c)"
proof (cases "m < 0")
  case True
  then show ?thesis
    by (simp add: number_text_def show_int_def ch_def)
next
  case False
  obtain d ds where ds: "show_nat (nat m) = d # ds"
    using show_nat_not_Nil [of "nat m"] by (cases "show_nat (nat m)") auto
  then have "is_digit d"
    using show_nat_digits [of d "nat m"] by simp
  then show ?thesis
    using False ds by (simp add: number_text_def show_int_def)
qed

subsection \<open>Values\<close>

lemma skip_ws_Cons: "\<not> is_json_ws c \<Longrightarrow> skip_ws (c # cs) = c # cs"
  by (simp add: skip_ws_def)

lemma quote_first: "quote s = 0x22 # quote_chars s @ [0x22]"
  by (simp add: quote_def)

lemma opens_append: "opens s \<Longrightarrow> opens (s @ r)"
  by (cases s) (simp_all add: opens_def)

lemma opens_skip_ws: "opens s \<Longrightarrow> skip_ws s = s"
  by (cases s) (simp_all add: opens_def skip_ws_def)

lemma opens_stringify: "opens (JSON_stringify v)"
proof (cases v)
  case (JNum m e)
  obtain c cs where "number_text m e = c # cs" "c = 0x2D \<or> is_digit c"
    using number_text_first by blast
  then show ?thesis
    using JNum by (auto simp add: opens_def is_json_ws_def is_digit_def str_def ch_def)
qed (simp_all add: opens_def is_json_ws_def str_def ch_def quote_def)

lemma opens_stringify_elems: "xs \<noteq> [] \<Longrightarrow> opens (stringify_elems xs)"
proof (cases xs)
  case Nil
  then show "xs \<noteq> [] \<Longrightarrow> ?thesis" by simp
next
  case (Cons x ys)
  then show ?thesis
    using opens_stringify [of x] by (cases ys) (simp_all add: opens_append)
qed

lemma stringify_members_first:
  "stringify_members ((k, v) # kvs) = 0x22 # tl (stringify_members ((k, v) # kvs))"
  by (cases kvs) (auto simp add: quote_def)

lemma parse_value_literal:
  assumes "0 < n"
  shows "parse_value n (str ''null'' @ r) = Parsed (JNull, r)"
    and "parse_value n (str ''true'' @ r) = Parsed (JBool True, r)"
    and "parse_value n (str ''false'' @ r) = Parsed (JBool False, r)"
  using assms
  by (cases n; simp add: str_def ch_def is_digit_def of_option_def parse_literal_def startsWith_def)+

lemma parse_value_number:
  assumes "0 < n" and "closes r"
  shows "parse_value n (number_text m e @ r) = Parsed (JNum m e, r)"
proof -
  obtain c cs where t: "number_text m e = c # cs" and c: "c = 0x2D \<or> is_digit c"
    using number_text_first by blast
  obtain k where n: "n = Suc k"
    using assms(1) by (cases n) auto
  have "c \<noteq> 0x5B \<and> c \<noteq> 0x7B \<and> c \<noteq> 0x22"
    using c by (auto simp add: is_digit_def)
  moreover have "parse_number (c # cs @ r) = Some (JNum m e, r)"
    using parse_number_text [OF assms(2), of m e] t by simp
  ultimately show ?thesis
    using c by (simp add: n t of_option_def)
qed

lemma parse_value_string:
  assumes "0 < n"
  shows "parse_value n (quote s @ r) = Parsed (JStr s, r)"
proof -
  obtain k where n: "n = Suc k"
    using assms(1) by (cases n) auto
  show ?thesis
    by (simp add: n quote_def parse_chars_quote_chars del: parse_chars.simps)
qed

lemma skip_ws_punct [simp]:
  "skip_ws (0x2C # t) = 0x2C # t"
  "skip_ws (0x5D # t) = 0x5D # t"
  "skip_ws (0x7D # t) = 0x7D # t"
  "skip_ws (0x3A # t) = 0x3A # t"
  "skip_ws (0x22 # t) = 0x22 # t"
  by (simp_all add: skip_ws_def is_json_ws_def)

lemma opens_stringify_members: "kvs \<noteq> [] \<Longrightarrow> opens (stringify_members kvs)"
proof (cases kvs)
  case Nil
  then show "kvs \<noteq> [] \<Longrightarrow> ?thesis" by simp
next
  case (Cons kv ys)
  obtain k v where "kv = (k, v)" by (cases kv)
  then show ?thesis
    using Cons by (cases ys) (simp_all add: opens_def quote_def is_json_ws_def)
qed

lemma parse_elems_text:
  assumes V: "\<And>x n r. \<lbrakk>x \<in> set xs; 2 * length (JSON_stringify x) \<le> n; closes r\<rbrakk> \<Longrightarrow>
              parse_value n (JSON_stringify x @ r) = Parsed (reparsed x, r)"
    and "xs \<noteq> []"
    and "2 * length (stringify_elems xs) + 1 \<le> n"
  shows "parse_elems n (stringify_elems xs @ 0x5D # r) acc = Parsed (JArr (acc @ map reparsed xs), r)"
  using assms
proof (induction xs arbitrary: n acc)
  case Nil
  then show ?case by simp
next
  case (Cons x ys)
  obtain k where n: "n = Suc k"
    using Cons.prems(3) by (cases n) auto
  show ?case
  proof (cases ys)
    case Nil
    have "parse_value k (JSON_stringify x @ 0x5D # r) = Parsed (reparsed x, 0x5D # r)"
      using Cons.prems(3) by (intro Cons.prems(1)) (simp_all add: Nil n closes_def)
    then show ?thesis
      by (simp add: Nil n)
  next
    case (Cons y zs)
    let ?rest = "stringify_elems (y # zs) @ 0x5D # r"
    have len: "length (stringify_elems (x # y # zs)) =
        length (JSON_stringify x) + 1 + length (stringify_elems (y # zs))"
      by simp
    have "parse_value k (JSON_stringify x @ 0x2C # ?rest) = Parsed (reparsed x, 0x2C # ?rest)"
      using Cons.prems(3) len by (intro Cons.prems(1)) (simp_all add: Cons n closes_def)
    moreover have "skip_ws ?rest = ?rest"
      by (intro opens_skip_ws opens_append opens_stringify_elems) simp
    moreover have "parse_elems k ?rest (acc @ [reparsed x]) =
        Parsed (JArr ((acc @ [reparsed x]) @ map reparsed (y # zs)), r)"
      using Cons.prems(3) len
      by (intro Cons.IH [unfolded Cons] Cons.prems(1)) (simp_all add: Cons n)
    ultimately show ?thesis
      by (simp add: Cons n)
  qed
qed

lemma put_prop_fresh: "k \<notin> fst ` set acc \<Longrightarrow> put_prop k v acc = acc @ [(k, v)]"
  by (induction acc) auto

lemma parse_members_text:
  assumes V: "\<And>k v n r. \<lbrakk>(k, v) \<in> set kvs; 2 * length (JSON_stringify v) \<le> n; closes r\<rbrakk> \<Longrightarrow>
              parse_value n (JSON_stringify v @ r) = Parsed (reparsed v, r)"
    and "kvs \<noteq> []"
    and "2 * length (stringify_members kvs) + 1 \<le> n"
    and "distinct (map fst acc @ map fst kvs)"
  shows "parse_members n (stringify_members kvs @ 0x7D # r) acc =
           Parsed (JObj (acc @ map (map_prod id reparsed) kvs), r)"
  using assms
proof (induction kvs arbitrary: n acc)
  case Nil
  then show ?case by simp
next
  case (Cons kv ys)
  obtain k v where kv: "kv = (k, v)" by (cases kv)
  obtain m where n: "n = Suc m"
    using Cons.prems(3) by (cases n) auto
  have fresh: "put_prop k (reparsed v) acc = acc @ [(k, reparsed v)]"
    using Cons.prems(4) by (intro put_prop_fresh) (auto simp add: kv)
  have str: "parse_chars (quote_chars k @ 0x22 # 0x3A # t) = Some (k, 0x3A # t)" for t
    by (rule parse_chars_quote_chars)
  show ?case
  proof (cases ys)
    case Nil
    have "parse_value m (JSON_stringify v @ 0x7D # r) = Parsed (reparsed v, 0x7D # r)"
      using Cons.prems(3) by (intro Cons.prems(1) [of k]) (simp_all add: Nil n kv closes_def)
    moreover have "skip_ws (JSON_stringify v @ 0x7D # r) = JSON_stringify v @ 0x7D # r"
      by (intro opens_skip_ws opens_append opens_stringify)
    ultimately show ?thesis
      using fresh str [of "JSON_stringify v @ 0x7D # r"]
      by (simp add: Nil n kv quote_def del: parse_chars.simps)
  next
    case (Cons p zs)
    let ?rest = "stringify_members (p # zs) @ 0x7D # r"
    have len: "length (stringify_members ((k, v) # p # zs)) =
        length (quote k) + 1 + length (JSON_stringify v) + 1 + length (stringify_members (p # zs))"
      by simp
    have "parse_value m (JSON_stringify v @ 0x2C # ?rest) = Parsed (reparsed v, 0x2C # ?rest)"
      using Cons.prems(3) len by (intro Cons.prems(1) [of k]) (simp_all add: Cons n kv closes_def)
    moreover have "skip_ws (JSON_stringify v @ 0x2C # ?rest) = JSON_stringify v @ 0x2C # ?rest"
      by (intro opens_skip_ws opens_append opens_stringify)
    moreover have "skip_ws ?rest = ?rest"
      by (intro opens_skip_ws opens_append opens_stringify_members) simp
    moreover have "parse_members m ?rest (acc @ [(k, reparsed v)]) =
        Parsed (JObj ((acc @ [(k, reparsed v)]) @ map (map_prod id reparsed) (p # zs)), r)"
      using Cons.prems(3,4) len
      by (intro Cons.IH [unfolded Cons] Cons.prems(1)) (auto simp add: Cons n kv)
    ultimately show ?thesis
      using fresh str [of "JSON_stringify v @ 0x2C # ?rest"]
      by (simp add: Cons n kv quote_def id_def del: parse_chars.simps)
  qed
qed

text \<open>
  With fuel of twice the length of its text, a serialised value is read back, whatever
  delimiter follows it.
\<close>

lemma parse_value_text:
  assumes "distinct_keys v" and "2 * length (JSON_stringify v) \<le> n" and "closes r"
  shows "parse_value n (JSON_stringify v @ r) = Parsed (reparsed v, r)"
  using assms
proof (induction v arbitrary: n r)
  case JNull
  then have "0 < n" by (simp add: str_def)
  then show ?case by (simp add: parse_value_literal)
next
  case (JBool b)
  then have "0 < n" by (simp add: str_def split: if_splits)
  then show ?case by (simp add: parse_value_literal)
next
  case (JNum m e)
  obtain c cs where "number_text m e = c # cs"
    using number_text_first [of m e] by auto
  then have "0 < n"
    using JNum.prems(2) by (cases "number_overflows m e") (simp_all add: str_def)
  then show ?case
    using JNum.prems(3) by (simp add: parse_value_literal parse_value_number)
next
  case (JStr s)
  then have "0 < n" by (simp add: quote_def)
  then show ?case
    using parse_value_string [of n s r] by simp
next
  case (JArr xs)
  have dk: "\<forall>x \<in> set xs. distinct_keys x"
    using JArr.prems(1) by (simp add: list_all_iff)
  obtain k where n: "n = Suc k"
    using JArr.prems(2) by (cases n) auto
  show ?case
  proof (cases xs)
    case Nil
    then show ?thesis by (simp add: n)
  next
    case (Cons y ys)
    let ?t = "stringify_elems xs @ 0x5D # r"
    have op: "opens ?t"
      by (intro opens_append opens_stringify_elems) (simp add: Cons)
    then obtain d ds where t: "?t = d # ds" and d: "d \<noteq> 0x5D" "skip_ws (d # ds) = d # ds"
      using opens_skip_ws [OF op] by (cases ?t) (auto simp add: opens_def)
    have "parse_elems k ?t [] = Parsed (JArr ([] @ map reparsed xs), r)"
    proof (rule parse_elems_text)
      show "xs \<noteq> []" by (simp add: Cons)
      show "2 * length (stringify_elems xs) + 1 \<le> k"
        using JArr.prems(2) by (simp add: n)
      show "parse_value n' (JSON_stringify x @ r') = Parsed (reparsed x, r')"
        if "x \<in> set xs" "2 * length (JSON_stringify x) \<le> n'" "closes r'" for x n' r'
        using that dk by (intro JArr.IH) simp_all
    qed
    then have "parse_elems k (d # ds) [] = Parsed (JArr (map reparsed xs), r)"
      by (simp add: t)
    moreover have "JSON_stringify (JArr xs) @ r = 0x5B # d # ds"
      using t by simp
    ultimately show ?thesis
      using d by (simp add: n del: JSON_stringify.simps)
  qed
next
  case (JObj kvs)
  have dk: "distinct (map fst kvs)" "\<forall>kv \<in> set kvs. distinct_keys (snd kv)"
    using JObj.prems(1) by (auto simp add: list_all_iff)
  obtain k where n: "n = Suc k"
    using JObj.prems(2) by (cases n) auto
  show ?case
  proof (cases kvs)
    case Nil
    then show ?thesis by (simp add: n)
  next
    case (Cons y ys)
    let ?t = "stringify_members kvs @ 0x7D # r"
    have op: "opens ?t"
      by (intro opens_append opens_stringify_members) (simp add: Cons)
    then obtain d ds where t: "?t = d # ds" and d: "d \<noteq> 0x7D" "skip_ws (d # ds) = d # ds"
      using opens_skip_ws [OF op] by (cases ?t) (auto simp add: opens_def)
    have "parse_members k ?t [] = Parsed (JObj ([] @ map (map_prod id reparsed) kvs), r)"
    proof (rule parse_members_text)
      show "kvs \<noteq> []" by (simp add: Cons)
      show "2 * length (stringify_members kvs) + 1 \<le> k"
        using JObj.prems(2) by (simp add: n)
      show "distinct (map fst [] @ map fst kvs)"
        using dk(1) by simp
      show "parse_value n' (JSON_stringify v @ r') = Parsed (reparsed v, r')"
        if "(a, v) \<in> set kvs" "2 * length (JSON_stringify v) \<le> n'" "closes r'" for a v n' r'
        using that dk(2) by (intro JObj.IH [of "(a, v)"]) auto
    qed
    then have "parse_members k (d # ds) [] = Parsed (JObj (map (map_prod id reparsed) kvs), r)"
      by (simp add: t)
    moreover have "JSON_stringify (JObj kvs) @ r = 0x7B # d # ds"
      using t by simp
    moreover have "d \<noteq> 0x5B \<or> True" by simp
    ultimately show ?thesis
      using d by (simp add: n del: JSON_stringify.simps)
  qed
qed

text \<open>Written and read again, a value whose objects have distinct keys is \<open>reparsed\<close>.\<close>

lemma JSON_parse_stringify:
  assumes "distinct_keys v"
  shows "JSON_parse (JSON_stringify v) = Some (reparsed v)"
proof -
  have "parse_value (2 * length (JSON_stringify v) + 2) (JSON_stringify v @ []) =
      Parsed (reparsed v, [])"
    using assms by (intro parse_value_text) (simp_all add: closes_def)
  moreover have "skip_ws (JSON_stringify v) = JSON_stringify v"
    by (intro opens_skip_ws opens_stringify)
  ultimately show ?thesis
    by (simp add: JSON_parse_def skip_ws_def)
qed

subsection \<open>The template validator does not see the difference\<close>

lemma map_of_map_prod: "map_of (map (map_prod id f) kvs) k = map_option f (map_of kvs k)"
  by (induction kvs) auto

lemma get_prop_reparsed: "get_prop (reparsed v) name = map_option reparsed (get_prop v name)"
  by (cases v) (simp_all add: map_of_map_prod)

lemma the_string_reparsed [simp]: "the_string (map_option reparsed x) = the_string x"
proof (cases x)
  case (Some v)
  then show ?thesis by (cases v) simp_all
qed simp

lemma typeof_string_reparsed [simp]:
  "typeof (map_option reparsed x) = ''string'' \<longleftrightarrow> typeof x = ''string''"
proof (cases x)
  case (Some v)
  then show ?thesis by (cases v) simp_all
qed simp

lemma missing_string_reparsed [simp]:
  "(truthy (map_option reparsed x) \<longrightarrow> typeof x \<noteq> ''string'') \<longleftrightarrow>
   (truthy x \<longrightarrow> typeof x \<noteq> ''string'')"
proof (cases x)
  case (Some v)
  then show ?thesis by (cases v) simp_all
qed simp

lemma not_object_reparsed:
  "(\<not> truthy (Some (reparsed v)) \<or> typeof (Some (reparsed v)) \<noteq> ''object'') \<longleftrightarrow>
   (\<not> truthy (Some v) \<or> typeof (Some v) \<noteq> ''object'')"
  by (cases v) simp_all

lemma isArray_reparsed [simp]: "isArray (map_option reparsed x) = isArray x"
proof (cases x)
  case (Some v)
  then show ?thesis by (cases v) simp_all
qed simp

lemma the_elements_reparsed [simp]:
  "the_elements (map_option reparsed x) = map reparsed (the_elements x)"
proof (cases x)
  case (Some v)
  then show ?thesis by (cases v) simp_all
qed simp

lemma validate_title_reparsed: "validate_title (reparsed t) st = validate_title t st"
  by (simp add: validate_title_def Let_def get_prop_reparsed)

lemma validate_notes_reparsed: "validate_notes (reparsed t) st = validate_notes t st"
  by (simp add: validate_notes_def Let_def get_prop_reparsed)

lemma validate_section_reparsed: "validate_section (reparsed s) i st = validate_section s i st"
proof (cases "\<not> truthy (Some s) \<or> typeof (Some s) \<noteq> ''object''")
  case True
  then have "\<not> truthy (Some (reparsed s)) \<or> typeof (Some (reparsed s)) \<noteq> ''object''"
    using not_object_reparsed [of s] by blast
  then show ?thesis
    using True by (simp add: validate_section_def)
next
  case False
  then have "\<not> (\<not> truthy (Some (reparsed s)) \<or> typeof (Some (reparsed s)) \<noteq> ''object'')"
    using not_object_reparsed [of s] by blast
  then show ?thesis
    using False by (simp add: validate_section_def Let_def get_prop_reparsed)
qed

lemma validate_property_reparsed: "validate_property (reparsed p) i st = validate_property p i st"
proof (cases "\<not> truthy (Some p) \<or> typeof (Some p) \<noteq> ''object''")
  case True
  then have "\<not> truthy (Some (reparsed p)) \<or> typeof (Some (reparsed p)) \<noteq> ''object''"
    using not_object_reparsed [of p] by blast
  then show ?thesis
    using True by (simp add: validate_property_def)
next
  case False
  then have "\<not> (\<not> truthy (Some (reparsed p)) \<or> typeof (Some (reparsed p)) \<noteq> ''object'')"
    using not_object_reparsed [of p] by blast
  then show ?thesis
    using False by (simp add: validate_property_def Let_def get_prop_reparsed)
qed

lemma forEach_from_reparsed:
  assumes "\<And>x i st. f (reparsed x) i st = f x i st"
  shows "forEach_from i f (map reparsed xs) st = forEach_from i f xs st"
  by (induction xs arbitrary: i st) (simp_all add: assms)

lemma validate_sections_reparsed: "validate_sections (reparsed t) st = validate_sections t st"
  by (simp add: validate_sections_def Let_def get_prop_reparsed forEach_def
      forEach_from_reparsed [of validate_section, OF validate_section_reparsed])

lemma validate_properties_reparsed: "validate_properties (reparsed t) st = validate_properties t st"
  by (simp add: validate_properties_def Let_def get_prop_reparsed forEach_def
      forEach_from_reparsed [of validate_property, OF validate_property_reparsed])

lemma validateTemplateStructure_reparsed:
  "validateTemplateStructure (reparsed t) = validateTemplateStructure t"
proof (cases "\<not> truthy (Some t) \<or> typeof (Some t) \<noteq> ''object''")
  case True
  then have "\<not> truthy (Some (reparsed t)) \<or> typeof (Some (reparsed t)) \<noteq> ''object''"
    using not_object_reparsed [of t] by blast
  then show ?thesis
    using True by (simp add: validateTemplateStructure_def)
next
  case False
  then have "\<not> (\<not> truthy (Some (reparsed t)) \<or> typeof (Some (reparsed t)) \<noteq> ''object'')"
    using not_object_reparsed [of t] by blast
  then show ?thesis
    using False
    by (simp add: validateTemplateStructure_def validate_title_reparsed validate_sections_reparsed
        validate_properties_reparsed validate_notes_reparsed)
qed

text \<open>
  C9. A template that is a JSON value (each object with distinct keys) and passes the
  template validator: \<open>JSON.parse\<close> reads its serialisation back (as \<open>reparsed\<close>, which
  differs from the template only where a number had overflowed), and the validator
  accepts what is read back with the same warnings in the same order.
\<close>

theorem roundtrip_keeps_validation:
  assumes "distinct_keys template"
    and "errors (validateTemplateStructure template) = []"
  shows "JSON_parse (JSON_stringify template) = Some (reparsed template) \<and>
         errors (validateTemplateStructure (reparsed template)) = [] \<and>
         isValid (validateTemplateStructure (reparsed template)) \<and>
         warnings (validateTemplateStructure (reparsed template)) =
           warnings (validateTemplateStructure template)"
proof -
  have "JSON_parse (JSON_stringify template) = Some (reparsed template)"
    using assms(1) by (rule JSON_parse_stringify)
  moreover have "isValid (validateTemplateStructure template)"
    using assms(2) by (simp add: validateTemplateStructure_def split: if_splits)
  ultimately show ?thesis
    using assms(2) by (simp add: validateTemplateStructure_reparsed)
qed

theorem roundtrip_keeps_validation_witness:
  "distinct_keys
     (JObj [(str ''title'', JStr (str ''Daily Planner'')),
            (str ''sections'',
             JArr [JObj [(str ''name'', JStr (str ''Today'')),
                         (str ''description'', JStr (str ''Tasks for today''))]]),
            (str ''properties'', JArr []),
            (str ''budget'', JNum 1 400)]) \<and>
   JSON_parse (JSON_stringify
     (JObj [(str ''title'', JStr (str ''Daily Planner'')),
            (str ''sections'',
             JArr [JObj [(str ''name'', JStr (str ''Today'')),
                         (str ''description'', JStr (str ''Tasks for today''))]]),
            (str ''properties'', JArr []),
            (str ''budget'', JNum 1 400)])) =
     Some (JObj [(str ''title'', JStr (str ''Daily Planner'')),
            (str ''sections'',
             JArr [JObj [(str ''name'', JStr (str ''Today'')),
                         (str ''description'', JStr (str ''Tasks for today''))]]),
            (str ''properties'', JArr []),
            (str ''budget'', JNull)]) \<and>
   validateTemplateStructure
     (JObj [(str ''title'', JStr (str ''Daily Planner'')),
            (str ''sections'',
             JArr [JObj [(str ''name'', JStr (str ''Today'')),
                         (str ''description'', JStr (str ''Tasks for today''))]]),
            (str ''properties'', JArr []),
            (str ''budget'', JNull)]) =
     \<lparr>errors = [], warnings = [str ''No properties defined''], isValid = True\<rparr>"
proof -
  let ?t = "JObj [(str ''title'', JStr (str ''Daily Planner'')),
            (str ''sections'',
             JArr [JObj [(str ''name'', JStr (str ''Today'')),
                         (str ''description'', JStr (str ''Tasks for today''))]]),
            (str ''properties'', JArr []),
            (str ''budget'', JNum 1 400)]"
  let ?t' = "JObj [(str ''title'', JStr (str ''Daily Planner'')),
            (str ''sections'',
             JArr [JObj [(str ''name'', JStr (str ''Today'')),
                         (str ''description'', JStr (str ''Tasks for today''))]]),
            (str ''properties'', JArr []),
            (str ''budget'', JNull)]"
  have h1: "distinct_keys ?t"
    by (simp add: str_def ch_def)
  have v: "validateTemplateStructure ?t =
      \<lparr>errors = [], warnings = [str ''No properties defined''], isValid = True\<rparr>"
    by (simp add: template_eval string_eval)
  then have h2: "errors (validateTemplateStructure ?t) = []"
    by simp
  have r: "reparsed ?t = ?t'"
    by (simp add: number_overflows_def)
  from roundtrip_keeps_validation [OF h1 h2] h1 show ?thesis
    unfolding r validateTemplateStructure_reparsed [of ?t, unfolded r] v by simp
qed


section \<open>The numbers of validateRateLimit\<close>

lemma bits_le: "n < 2 ^ k \<Longrightarrow> bits n \<le> k"
proof (induction k arbitrary: n)
  case 0
  then show ?case by (simp add: bits.simps)
next
  case (Suc k)
  show ?case
  proof (cases "n = 0")
    case True
    then show ?thesis by (simp add: bits.simps)
  next
    case False
    from Suc.prems have "n div 2 < 2 ^ k" by simp
    then have "bits (n div 2) \<le> k" by (rule Suc.IH)
    then show ?thesis using False by (subst bits.simps) simp
  qed
qed

lemma bits_gt: "2 ^ k \<le> n \<Longrightarrow> k < bits n"
proof (induction k arbitrary: n)
  case 0
  then show ?case by (subst bits.simps) simp
next
  case (Suc k)
  then have "2 ^ k \<le> n div 2" by simp
  then have "k < bits (n div 2)" by (rule Suc.IH)
  moreover have "(0::nat) < 2 ^ Suc k" by simp
  then have "n \<noteq> 0" using Suc.prems by linarith
  ultimately show ?case by (subst bits.simps) simp
qed

lemma bits_lower: "n \<noteq> 0 \<Longrightarrow> 2 ^ (bits n - 1) \<le> n"
proof (induction n rule: bits.induct)
  case (1 n)
  show ?case
  proof (cases "n div 2 = 0")
    case True
    then have "bits (n div 2) = 0" by (simp add: bits.simps)
    then have "bits n = 1" using 1 by (subst bits.simps) simp
    then show ?thesis using 1 by simp
  next
    case False
    then have ih: "2 ^ (bits (n div 2) - 1) \<le> n div 2"
      using 1 by simp
    have pos: "0 < bits (n div 2)"
      using False by (subst bits.simps) simp
    have "bits n = Suc (bits (n div 2))"
      using 1 by (subst bits.simps) simp
    then have "(2::nat) ^ (bits n - 1) = 2 * 2 ^ (bits (n div 2) - 1)"
      using pos by (cases "bits (n div 2)") simp_all
    also have "\<dots> \<le> 2 * (n div 2)" using ih by simp
    also have "\<dots> \<le> n" by simp
    finally show ?thesis .
  qed
qed

text \<open>An integer of at most 53 bits is a double.\<close>

lemma nearest_small: "n < 2 ^ 53 \<Longrightarrow> nearest n = n"
  using bits_le [of n 53] by (simp add: nearest_def)

text \<open>Rounding does not take a number of more than 53 bits below \<open>2 ^ 53\<close>.\<close>

lemma nearest_large:
  assumes "2 ^ 53 \<le> n"
  shows "2 ^ 53 \<le> nearest n"
proof -
  define d where "d = bits n - 53"
  have b: "53 < bits n" using assms by (rule bits_gt)
  then have d: "bits n - 1 = 52 + d" by (simp add: d_def)
  have "n \<noteq> 0" using assms by auto
  then have "2 ^ (52 + d) \<le> n" using bits_lower [of n] d by simp
  then have "2 ^ 52 * 2 ^ d \<le> n" by (simp add: power_add)
  then have q: "2 ^ 52 \<le> n div 2 ^ d"
    by (simp add: less_eq_div_iff_mult_less_eq)
  have "0 < d" using b by (simp add: d_def)
  then have "(2::nat) ^ 1 \<le> 2 ^ d" by (intro power_increasing) simp_all
  then have "(2::nat) ^ 53 \<le> 2 ^ 52 * 2 ^ d" by simp
  also have "\<dots> \<le> (n div 2 ^ d) * 2 ^ d" using q by simp
  finally have lo: "2 ^ 53 \<le> (n div 2 ^ d) * 2 ^ d" .
  then have "2 ^ 53 \<le> (n div 2 ^ d + 1) * 2 ^ d" by simp
  with lo show ?thesis
    unfolding nearest_def Let_def d_def [symmetric] by simp
qed

lemma Number_safe: "\<bar>i\<bar> < 2 ^ 53 \<Longrightarrow> Number i = Finite i"
proof -
  assume a: "\<bar>i\<bar> < 2 ^ 53"
  then have "nat \<bar>i\<bar> < 2 ^ 53" by simp
  then have n: "nearest (nat \<bar>i\<bar>) = nat \<bar>i\<bar>" by (rule nearest_small)
  have "nat \<bar>i\<bar> < 2 ^ 1024"
    using \<open>nat \<bar>i\<bar> < 2 ^ 53\<close> by simp
  then show ?thesis by (auto simp add: Number_def n Let_def)
qed

lemma pick_safe:
  assumes "x < 2 ^ 53" and "0 < p"
  shows "pick x p (x div p) = (if p dvd x then Some x else None)"
proof -
  let ?s = "x div p"
  have lo_le: "?s * p \<le> x" by simp
  then have "?s * p < 2 ^ 53"
    using assms(1) by (rule le_less_trans)
  then have lo: "nearest (?s * p) = ?s * p"
    by (rule nearest_small)
  have hi_gt: "x < Suc ?s * p"
    using assms(2) by (simp add: dividend_less_div_times)
  have hi: "nearest (Suc ?s * p) \<noteq> x"
  proof (cases "Suc ?s * p < 2 ^ 53")
    case True
    then have "nearest (Suc ?s * p) = Suc ?s * p" by (rule nearest_small)
    then show ?thesis using hi_gt by simp
  next
    case False
    then have "2 ^ 53 \<le> nearest (Suc ?s * p)" by (intro nearest_large) simp
    then show ?thesis using assms(1) by simp
  qed
  show ?thesis
  proof (cases "p dvd x")
    case True
    then have "?s * p = x" by simp
    then show ?thesis using True hi lo by (simp add: pick_def)
  next
    case False
    then have "?s * p \<noteq> x" by (metis dvd_triv_right)
    then show ?thesis using False hi lo by (simp add: pick_def)
  qed
qed

lemma shortest_safe: "x < 2 ^ 53 \<Longrightarrow> shortest x j = x"
  by (induction j) (simp_all add: shortest_at_def pick_safe)

lemma length_show_nat: "n < 10 ^ Suc k \<Longrightarrow> length (show_nat n) \<le> Suc k"
proof (induction k arbitrary: n)
  case 0
  then show ?case by (subst show_nat.simps) simp
next
  case (Suc k)
  show ?case
  proof (cases "n < 10")
    case True
    then show ?thesis by (subst show_nat.simps) simp
  next
    case False
    from Suc.prems have "n div 10 < 10 ^ Suc k" by simp
    then have "length (show_nat (n div 10)) \<le> Suc k" by (rule Suc.IH)
    then show ?thesis using False by (subst show_nat.simps) simp
  qed
qed

text \<open>
  At the integers of magnitude below \<open>2 ^ 53\<close> the template literal writes the decimal
  digits of the integer.
\<close>

lemma magnitude_text_safe:
  assumes "x < 2 ^ 53"
  shows "magnitude_text x = show_nat x"
proof -
  have "x < 10 ^ Suc 15" using assms by simp
  then have "length (show_nat x) \<le> Suc 15" by (rule length_show_nat)
  then show ?thesis using assms by (simp add: magnitude_text_def shortest_safe)
qed

lemma Number_toString_safe:
  "\<bar>i\<bar> < 2 ^ 53 \<Longrightarrow> Number_toString (Number i) = show_int i"
  by (simp add: Number_safe magnitude_text_safe show_int_def)


lemma nearest_bounds:
  "(n div 2 ^ (bits n - 53)) * 2 ^ (bits n - 53) \<le> nearest n \<and>
   nearest n \<le> (n div 2 ^ (bits n - 53)) * 2 ^ (bits n - 53) + 2 ^ (bits n - 53)"
  by (simp add: nearest_def Let_def)

text \<open>
  For a limit below \<open>2 ^ 32\<close> the comparison with the rounded product is the comparison
  of the integers: the rounding error is far below the fifth of a unit that separates
  \<open>4 * maxRequests / 5\<close> from the integers it is not.
\<close>

lemma greater_times_0_8_small:
  assumes b: "0 \<le> b" "b < 2 ^ 32" and a: "\<bar>a\<bar> < 2 ^ 53"
  shows "greater_times_0_8 (Number a) (Number b) = (4 * b < 5 * a)"
proof -
  define n where "n = nat b * 3602879701896397"
  define D :: nat where "D = 2 ^ (bits n - 53)"
  define q where "q = n div D"
  define N where "N = nearest n"
  have nb: "int n = b * 3602879701896397"
    using b(1) by (simp add: n_def)
  have "nat b < 2 ^ 32" using b by simp
  then have "nat b * 3602879701896397 < 2 ^ 32 * 2 ^ 52"
    by (intro mult_strict_mono) simp_all
  then have "n < 2 ^ 84" by (simp add: n_def)
  then have "bits n \<le> 84" by (rule bits_le)
  then have d: "bits n - 53 \<le> 31" by simp
  then have "(2::nat) ^ (bits n - 53) \<le> 2 ^ 31"
    by (intro power_increasing) simp_all
  then have D31: "D \<le> 2 ^ 31" by (simp add: D_def)
  have D31i: "int D \<le> 2147483648" using D31 by simp
  have Dpos: "0 < D" by (simp add: D_def)
  have "bits n - 53 \<le> 52" using d by simp
  then have Ddvd: "D dvd 2 ^ 52" unfolding D_def by (rule le_imp_power_dvd)
  have lo: "q * D \<le> N" and hi: "N \<le> q * D + D"
    using nearest_bounds [of n] by (simp_all add: q_def D_def N_def)
  have qlo: "q * D \<le> n" by (simp add: q_def)
  have qhi: "n < q * D + D"
    using dividend_less_div_times [OF Dpos, of n] by (simp add: q_def add.commute)
  have Na: "Number a = Finite a" using a by (rule Number_safe)
  have "\<bar>b\<bar> < 2 ^ 53" using b by simp
  then have Nb: "Number b = Finite b" by (rule Number_safe)
  have t: "times_0_8 b = int N"
    using b(1) by (simp add: times_0_8_def N_def n_def)
  have goal: "(int N < a * 2 ^ 52) = (4 * b < 5 * a)"
  proof (cases "4 * b < 5 * a")
    case True
    have "int N \<le> int n + int D" using hi qlo by linarith
    then have "int N \<le> b * 3602879701896397 + 2147483648"
      using nb D31i by linarith
    then have "int N < a * 2 ^ 52" using True b by simp
    then show ?thesis using True by simp
  next
    case False
    show ?thesis
    proof (cases "4 * b = 5 * a")
      case True
      have a0: "0 \<le> a" using True b by linarith
      obtain m where m: "(2::nat) ^ 52 = D * m" using Ddvd by (auto simp add: dvd_def)
      have cast: "int (nat a * 2 ^ 52) = a * 2 ^ 52" using a0 by simp
      have "a * 2 ^ 52 \<le> int n" using True nb b by simp
      then have "int (nat a * 2 ^ 52) \<le> int n" by (simp only: cast)
      then have "nat a * 2 ^ 52 \<le> n" by (simp only: of_nat_le_iff)
      moreover have e: "nat a * 2 ^ 52 = (nat a * m) * D"
        by (simp only: m mult_ac)
      ultimately have "(nat a * m) * D \<le> n" by (simp only:)
      then have "nat a * m \<le> q"
        using Dpos by (simp add: q_def less_eq_div_iff_mult_less_eq)
      then have "(nat a * m) * D \<le> q * D" by simp
      then have "(nat a * m) * D \<le> N"
        using lo by (rule le_trans)
      then have "nat a * 2 ^ 52 \<le> N" by (simp only: e)
      then have "int (nat a * 2 ^ 52) \<le> int N" by (simp only: of_nat_le_iff)
      then have "a * 2 ^ 52 \<le> int N" by (simp only: cast)
      then show ?thesis using False by simp
    next
      case neq: False
      then have gt: "5 * a + 1 \<le> 4 * b" using False by linarith
      have "int n < int N + int D" using lo qhi by linarith
      then have "b * 3602879701896397 < int N + 2147483648"
        using nb D31i by linarith
      then have "a * 2 ^ 52 \<le> int N" using gt by simp
      then show ?thesis using False by simp
    qed
  qed
  show ?thesis by (simp only: Na Nb greater_times_0_8.simps t goal)
qed


text \<open>
  Above that the rounding shows: with these two numbers the product \<open>maxRequests * 0.8\<close>
  is rounded up to \<open>requestCount\<close>, and there is no warning, although four fifths of
  the limit is less than the count.
\<close>

lemma validateRateLimit_rounded_product:
  "4 * 2251799813685251 < 5 * (1801439850948201::int) \<and>
   warnings (validateRateLimit (str ''10.0.0.1'') 1801439850948201 60000 2251799813685251) = []"
  by (simp add: validateRateLimit_def number_eval str_def)

text \<open>The numbers in the messages, with few digits and with many.\<close>

lemma validateRateLimit_message:
  "errors (validateRateLimit (str ''10.0.0.1'') 11 60000 10) =
     [str ''Rate limit exceeded: 11/10 requests in 60000ms'']"
proof -
  have "greater (Number 11) (Number 10)"
    by (simp add: Number_safe)
  moreover have "Number_toString (Number 11) = str ''11''"
    "Number_toString (Number 10) = str ''10''"
    "Number_toString (Number 60000) = str ''60000''"
    by (simp_all add: Number_toString_safe show_int_def show_nat.simps digit_char_def str_def ch_def)
  ultimately show ?thesis
    by (simp add: validateRateLimit_def Let_def) (simp add: str_def)
qed

lemma Number_toString_exponent:
  "Number_toString (Number (10 ^ 21)) = str ''1e+21'' \<and>
   Number_toString (Number (2 ^ 69)) = str ''590295810358705700000''"
  by (simp add: number_eval toString_eval)

end
